theory Spec2Isabelle
  imports Main "HOL-Library.Sublist"
begin

unbundle bit_operations_syntax

section \<open>Stealth Lock: strings, keys and the key decoder\<close>

text \<open>
  The extension is JavaScript (GJS).  A JavaScript string is a sequence of UTF-16 code
  units; \<open>length\<close>, \<open>slice\<close> and \<open>repeat\<close> count code units.  The password buffer,
  the prompt text and the arguments of the helper process are such strings.
\<close>

type_synonym jsstring = "nat list"

definition ascii :: "string \<Rightarrow> jsstring" where
  "ascii cs = map of_char cs"

datatype js_error = RangeError

text \<open>
  \<open>String.fromCodePoint\<close>: one code unit up to U+FFFF, a surrogate pair above, and a
  RangeError beyond U+10FFFF.
\<close>

definition fromCodePoint :: "nat \<Rightarrow> js_error + jsstring" where
  "fromCodePoint cp =
     (if cp > 0x10FFFF then Inl RangeError
      else if cp < 0x10000 then Inr [cp]
      else Inr [0xD800 + (cp - 0x10000) div 0x400, 0xDC00 + (cp - 0x10000) mod 0x400])"

definition PASSWORD_BULLET :: nat where
  "PASSWORD_BULLET = 0x2022"

definition DEFAULT_AUTO_RESET_SECONDS :: nat where
  "DEFAULT_AUTO_RESET_SECONDS = 5"

text \<open>
  The key symbols and modifier masks of Clutter that \<open>_onKeyPress\<close> names.  They are
  constants of the platform library; the values are those of the X11 keysym table and
  of \<open>Clutter.ModifierType\<close>.
\<close>

definition KEY_Return :: nat where "KEY_Return = 0xff0d"
definition KEY_KP_Enter :: nat where "KEY_KP_Enter = 0xff8d"
definition KEY_BackSpace :: nat where "KEY_BackSpace = 0xff08"
definition KEY_Escape :: nat where "KEY_Escape = 0xff1b"
definition KEY_l :: nat where "KEY_l = 0x6c"
definition KEY_L :: nat where "KEY_L = 0x4c"
definition KEY_r :: nat where "KEY_r = 0x72"
definition KEY_R :: nat where "KEY_R = 0x52"
definition KEY_Shift_L :: nat where "KEY_Shift_L = 0xffe1"
definition KEY_Shift_R :: nat where "KEY_Shift_R = 0xffe2"
definition KEY_Control_L :: nat where "KEY_Control_L = 0xffe3"
definition KEY_Control_R :: nat where "KEY_Control_R = 0xffe4"
definition KEY_Caps_Lock :: nat where "KEY_Caps_Lock = 0xffe5"
definition KEY_Alt_L :: nat where "KEY_Alt_L = 0xffe9"
definition KEY_Alt_R :: nat where "KEY_Alt_R = 0xffea"
definition KEY_Super_L :: nat where "KEY_Super_L = 0xffeb"
definition KEY_Super_R :: nat where "KEY_Super_R = 0xffec"
definition KEY_Num_Lock :: nat where "KEY_Num_Lock = 0xff7f"
definition KEY_KP_0 :: nat where "KEY_KP_0 = 0xffb0"
definition KEY_KP_9 :: nat where "KEY_KP_9 = 0xffb9"
definition KEY_KP_Decimal :: nat where "KEY_KP_Decimal = 0xffae"
definition KEY_KP_Separator :: nat where "KEY_KP_Separator = 0xffac"
definition KEY_KP_Add :: nat where "KEY_KP_Add = 0xffab"
definition KEY_KP_Subtract :: nat where "KEY_KP_Subtract = 0xffad"
definition KEY_KP_Multiply :: nat where "KEY_KP_Multiply = 0xffaa"
definition KEY_KP_Divide :: nat where "KEY_KP_Divide = 0xffaf"

definition SHIFT_MASK :: nat where "SHIFT_MASK = 1"
definition CONTROL_MASK :: nat where "CONTROL_MASK = 4"
definition MOD1_MASK :: nat where "MOD1_MASK = 8"

text \<open>
  A key event as the handler reads it: \<open>get_key_symbol()\<close>, \<open>get_state()\<close> and
  \<open>get_key_unicode()\<close> (0 when the method is missing, throws or finds nothing).
\<close>

record key_event =
  key_symbol :: nat
  modifier_state :: nat
  key_unicode :: nat

text \<open>
  Steps 1 and 2 of the decoder: the event's own Unicode value, and when that is 0 the
  platform's keysym conversion \<open>Clutter.keysym_to_unicode\<close>, a parameter here.
\<close>

definition platformKeychar :: "(nat \<Rightarrow> nat) \<Rightarrow> key_event \<Rightarrow> nat" where
  "platformKeychar keysym_to_unicode ev =
     (let keychar = key_unicode ev
      in if keychar = 0 then keysym_to_unicode (key_symbol ev) else keychar)"

text \<open>Step 3, the manual mapping, in the order of the source's \<open>else if\<close> chain.\<close>

definition manualMapping :: "nat \<Rightarrow> nat \<Rightarrow> nat" where
  "manualMapping keyval keychar =
     (if keychar = 0 \<or> (keychar > 0 \<and> keychar < 0x20) then
        (if keyval \<ge> 0x20 \<and> keyval \<le> 0x7e then keyval
         else if keyval \<ge> 0x00a0 \<and> keyval \<le> 0x00ff then keyval
         else if keyval \<ge> 0x01000000 then keyval - 0x01000000
         else if keyval \<ge> KEY_KP_0 \<and> keyval \<le> KEY_KP_9 then 0x30 + (keyval - KEY_KP_0)
         else if keyval = KEY_KP_Decimal \<or> keyval = KEY_KP_Separator then 0x2e
         else if keyval = KEY_KP_Add then 0x2b
         else if keyval = KEY_KP_Subtract then 0x2d
         else if keyval = KEY_KP_Multiply then 0x2a
         else if keyval = KEY_KP_Divide then 0x2f
         else if keychar > 0 \<and> keychar < 0x20 then 0
         else keychar)
      else keychar)"

section \<open>The lock session\<close>

text \<open>
  The settings the engine reads, as the \<open>_isDebugMode\<close>, \<open>_shouldPauseMedia\<close>,
  \<open>_shouldFreezeDisplay\<close> and \<open>_isNormalLockType\<close> helpers return them.  The settings
  object is null before \<open>enable\<close> and after \<open>disable\<close>.
\<close>

record settings =
  debug_mode :: bool
  auto_reset_seconds :: nat
  pause_media :: bool
  freeze_display :: bool
  normal_lock_type :: bool

text \<open>The helper process as \<open>_verifyPassword\<close> starts it.\<close>

datatype subprocess_flag =
  STDIN_PIPE | STDOUT_PIPE | STDERR_PIPE | STDOUT_SILENCE | STDERR_SILENCE

record subprocess =
  argv :: "jsstring list"
  proc_flags :: "subprocess_flag list"
  env_overrides :: "(jsstring \<times> jsstring) list"
  stdin_data :: jsstring

text \<open>The screenshot overlay: one entry per captured monitor.\<close>

record screenshot =
  shot_file :: string
  shot_monitor :: nat

record overlay =
  screenshots :: "screenshot list"
  destroyed :: bool

text \<open>Calls on the session bus, in the order they are issued.\<close>

datatype bus_call =
  ListNames | GetPlaybackStatus string | Pause string | Play string

text \<open>
  The fields of \<open>StealthLockExtension\<close> that the lock cycle reads and writes, and the
  effects it has on the world: helper processes started, verifications whose promise
  has not resolved yet, bus calls, resumes of media still running, the files that
  captures created in the temporary directory, unlinks attempted, the request for the
  system lock.
  The prompt widget, its label and its reveal icon are created and dropped together:
  \<open>passwordPromptText\<close> is the label's text while the prompt exists.
\<close>

record engine =
  settings :: "settings option"
  helperPath :: jsstring
  locked :: bool
  passwordBuffer :: jsstring
  passwordResetTimeout :: "nat option"
  debugAbortSequenceCount :: nat
  debugAbortSequenceLastTime :: int
  passwordPromptText :: "jsstring option"
  passwordPromptRevealed :: bool
  pausedPlayers :: "string list"
  didPauseMedia :: bool
  lockOverlay :: "overlay option"
  authSpawned :: "subprocess list"
  authPending :: "jsstring list"
  busCalls :: "bus_call list"
  resumeTasks :: "string list list"
  tmpFiles :: "string list"
  unlinked :: "string list"
  systemLockRequested :: bool

definition isDebugMode :: "engine \<Rightarrow> bool" where
  "isDebugMode s = (case settings s of None \<Rightarrow> False | Some c \<Rightarrow> debug_mode c)"

definition clearPasswordResetTimeout :: "engine \<Rightarrow> engine" where
  "clearPasswordResetTimeout s = s\<lparr>passwordResetTimeout := None\<rparr>"

text \<open>The single-shot inactivity timer, in milliseconds; 0 seconds arms nothing.\<close>

definition resetPasswordTimeout :: "engine \<Rightarrow> engine" where
  "resetPasswordTimeout s =
     (let s1 = clearPasswordResetTimeout s;
          seconds = (case settings s1 of None \<Rightarrow> DEFAULT_AUTO_RESET_SECONDS
                     | Some c \<Rightarrow> auto_reset_seconds c)
      in if seconds = 0 then s1 else s1\<lparr>passwordResetTimeout := Some (seconds * 1000)\<rparr>)"

text \<open>
  \<open>_updatePasswordPrompt\<close>: nothing without a prompt; otherwise the label shows the
  buffer when revealed and \<open>PASSWORD_BULLET.repeat(buffer.length)\<close> when not.  The
  user-supplied prompt script is not part of the model.
\<close>

definition updatePasswordPrompt :: "engine \<Rightarrow> engine" where
  "updatePasswordPrompt s =
     (case passwordPromptText s of
        None \<Rightarrow> s
      | Some _ \<Rightarrow>
          (let masked = replicate (length (passwordBuffer s)) PASSWORD_BULLET;
               displayText = (if passwordPromptRevealed s then passwordBuffer s else masked)
           in s\<lparr>passwordPromptText := Some displayText\<rparr>))"

definition destroyPasswordPrompt :: "engine \<Rightarrow> engine" where
  "destroyPasswordPrompt s = s\<lparr>passwordPromptText := None, passwordPromptRevealed := False\<rparr>"

definition createPasswordPrompt :: "engine \<Rightarrow> engine" where
  "createPasswordPrompt s =
     (if lockOverlay s = None \<or> passwordPromptText s \<noteq> None then s
      else s\<lparr>passwordPromptRevealed := False, passwordPromptText := Some []\<rparr>)"

definition syncPasswordPrompt :: "engine \<Rightarrow> engine" where
  "syncPasswordPrompt s =
     (if \<not> locked s \<or> lockOverlay s = None then s
      else if \<not> (case settings s of None \<Rightarrow> False | Some c \<Rightarrow> normal_lock_type c)
        then destroyPasswordPrompt s
      else updatePasswordPrompt
             (if passwordPromptText s = None then createPasswordPrompt s else s))"

section \<open>Media: pausing and resuming MPRIS players\<close>

text \<open>
  What the session bus answers: the names it lists (None when the call fails), each
  player's \<open>PlaybackStatus\<close> (None when the property call fails) and whether a
  \<open>Pause\<close> call returns without an error.  A failed \<open>Play\<close> is caught and changes
  nothing, so its outcome is no input.
\<close>

record bus =
  list_names :: "string list option"
  playback_status :: "string \<Rightarrow> string option"
  pause_succeeds :: "string \<Rightarrow> bool"

definition MPRIS_PREFIX :: string where
  "MPRIS_PREFIX = ''org.mpris.MediaPlayer2.''"

definition startsWith :: "string \<Rightarrow> string \<Rightarrow> bool" where
  "startsWith n p = (take (length p) n = p)"

definition pausePlayer :: "bus \<Rightarrow> engine \<Rightarrow> string \<Rightarrow> engine" where
  "pausePlayer b s playerName =
     (let s1 = s\<lparr>busCalls := busCalls s @ [GetPlaybackStatus playerName]\<rparr>
      in case playback_status b playerName of
           None \<Rightarrow> s1
         | Some status \<Rightarrow>
             if status = ''Playing'' then
               (let s2 = s1\<lparr>busCalls := busCalls s1 @ [Pause playerName]\<rparr>
                in if pause_succeeds b playerName
                   then s2\<lparr>pausedPlayers := pausedPlayers s2 @ [playerName]\<rparr>
                   else s2)
             else s1)"

definition pauseAllMedia :: "bus \<Rightarrow> engine \<Rightarrow> engine" where
  "pauseAllMedia b s =
     (let s1 = s\<lparr>pausedPlayers := [], busCalls := busCalls s @ [ListNames]\<rparr>
      in case list_names b of
           None \<Rightarrow> s1
         | Some names \<Rightarrow>
             foldl (pausePlayer b) s1 (filter (\<lambda>n. startsWith n MPRIS_PREFIX) names))"

definition resumePlayer :: "engine \<Rightarrow> string \<Rightarrow> engine" where
  "resumePlayer s playerName = s\<lparr>busCalls := busCalls s @ [Play playerName]\<rparr>"

text \<open>
  \<open>_resumeAllMedia\<close> is asynchronous and \<open>_unlock\<close> does not wait for it.  What runs
  inside the call is the part up to the first \<open>await\<close>: with no recorded player the
  loop is skipped and the list is reset at once; otherwise the \<open>Play\<close> call for the
  first player is issued and the call is suspended.  A suspended resume is kept as the
  players it still has to go through, the first of them being the one whose reply is
  awaited; the loop walks the array the field held when it started.  Each reply lets
  it issue the next \<open>Play\<close>, and after the reply to the last one it executes
  \<open>this._pausedPlayers = []\<close>, on whatever the field holds by then.
\<close>

definition resumeAllMedia :: "engine \<Rightarrow> engine" where
  "resumeAllMedia s =
     (case pausedPlayers s of
        [] \<Rightarrow> s\<lparr>pausedPlayers := []\<rparr>
      | playerName # rest \<Rightarrow>
          (resumePlayer s playerName)\<lparr>resumeTasks := resumeTasks s @ [playerName # rest]\<rparr>)"

definition resumeAllMedia_replied :: "nat \<Rightarrow> engine \<Rightarrow> engine" where
  "resumeAllMedia_replied i s =
     (if i < length (resumeTasks s) then
        (case tl (resumeTasks s ! i) of
           [] \<Rightarrow>
             s\<lparr>resumeTasks := take i (resumeTasks s) @ drop (Suc i) (resumeTasks s),
               pausedPlayers := []\<rparr>
         | playerName # rest \<Rightarrow>
             (resumePlayer s playerName)
               \<lparr>resumeTasks := (resumeTasks s)[i := playerName # rest]\<rparr>)
      else s)"

section \<open>The overlay and its screenshots\<close>

text \<open>
  What happens outside the engine while one monitor is captured: the path that
  \<open>_captureMonitor\<close> builds in the temporary directory (it contains the index and
  \<open>Date.now()\<close>), whether \<open>Gio.File.replace\<close> returns a stream for it, what the capture
  into the stream resolves to (None when the call itself throws, as on a Shell with
  the older signature), and what the older, file name based capture resolves to
  (None when that call throws; otherwise its success flag and the file name it
  reports, if it reports one).
\<close>

record capture =
  cap_filename :: string
  replace_ok :: bool
  stream_capture :: "bool option"
  legacy_capture :: "(bool \<times> string option) option"

text \<open>
  \<open>_screenshotAreaToFile\<close>, on the files of the temporary directory.  \<open>replace\<close>
  creates the file before anything is captured; a capture into the stream that fails
  or times out resolves to false and the file stays.  When \<open>replace\<close> or the call with
  the stream throws, the older call is tried; it writes the file it reports when it
  succeeds.  The result is the pair \<open>(success, filenameUsed)\<close> and the files.  A
  capture that timed out may still write its file afterwards; that is not modelled.
\<close>

definition screenshotAreaToFile ::
  "capture \<Rightarrow> string list \<Rightarrow> (bool \<times> string) \<times> string list" where
  "screenshotAreaToFile c files =
     (let filename = cap_filename c;
          files1 = (if replace_ok c then List.insert filename files else files)
      in case (if replace_ok c then stream_capture c else None) of
           Some success \<Rightarrow> ((success, filename), files1)
         | None \<Rightarrow>
             (case legacy_capture c of
                None \<Rightarrow> ((False, filename), files1)
              | Some (success, reported) \<Rightarrow>
                  (let filenameUsed = (case reported of None \<Rightarrow> filename | Some f \<Rightarrow> f)
                   in ((success, filenameUsed),
                       if success then List.insert filenameUsed files1 else files1))))"

text \<open>
  \<open>_captureMonitor\<close>: a capture that did not succeed returns early and records
  nothing; a successful one is recorded with the file it used.
\<close>

definition captureMonitor ::
  "overlay \<times> string list \<Rightarrow> nat \<times> capture \<Rightarrow> overlay \<times> string list" where
  "captureMonitor st m =
     (case st of (ov, files) \<Rightarrow>
        case m of (index, c) \<Rightarrow>
          case screenshotAreaToFile c files of
            ((success, filenameUsed), files1) \<Rightarrow>
              if \<not> success then (ov, files1)
              else (ov\<lparr>screenshots := screenshots ov @
                          [\<lparr>shot_file = filenameUsed, shot_monitor = index\<rparr>]\<rparr>,
                    files1))"

definition captureScreens ::
  "overlay \<Rightarrow> capture list \<Rightarrow> string list \<Rightarrow> overlay \<times> string list" where
  "captureScreens ov captures files =
     foldl captureMonitor (ov, files) (zip [0..<length captures] captures)"

text \<open>
  \<open>StealthLockOverlay.destroy\<close>: an unlink is attempted for every recorded file (a
  failure is swallowed; here every unlink removes its file), then the list is emptied.
  The result is the overlay, the files whose unlink was attempted, and the files left
  in the temporary directory.
\<close>

definition overlay_destroy ::
  "overlay \<Rightarrow> string list \<Rightarrow> overlay \<times> string list \<times> string list" where
  "overlay_destroy ov files =
     (ov\<lparr>screenshots := [], destroyed := True\<rparr>,
      map shot_file (screenshots ov),
      foldl (\<lambda>fs f. removeAll f fs) files (map shot_file (screenshots ov)))"

section \<open>Unlocking, locking and verification\<close>

text \<open>
  \<open>_unlock\<close>.  Releasing the keyboard handlers, the modal grab and the cursor has no
  effect on the fields modelled here.  The resume of the media is started and not
  waited for.
\<close>

definition unlock :: "bool \<Rightarrow> engine \<Rightarrow> engine" where
  "unlock force s =
     (if \<not> locked s \<and> \<not> force then s
      else
        let s1 = destroyPasswordPrompt s;
            s2 = (case lockOverlay s1 of
                    None \<Rightarrow> s1
                  | Some ov \<Rightarrow>
                      (case overlay_destroy ov (tmpFiles s1) of
                         (ov', attempted, files') \<Rightarrow>
                           s1\<lparr>unlinked := unlinked s1 @ attempted, tmpFiles := files',
                              lockOverlay := None\<rparr>));
            s3 = (if didPauseMedia s2 then resumeAllMedia s2 else s2)
        in clearPasswordResetTimeout (s3\<lparr>passwordBuffer := []\<rparr>)\<lparr>locked := False\<rparr>)"

text \<open>
  \<open>_lock\<close>, run to completion, with no other event between its \<open>await\<close>s:
  \<open>captures\<close> say what happens outside for each monitor, and \<open>setup_ok\<close> is false
  when a step after the captures throws, which forces the unlock of the \<open>catch\<close>
  branch.  The chrome, the modal grab, the debug label and the cursor have no effect on
  the fields modelled here.
\<close>

definition lock :: "bus \<Rightarrow> capture list \<Rightarrow> bool \<Rightarrow> engine \<Rightarrow> engine" where
  "lock b captures setup_ok s =
     (if locked s then s
      else
        let s1 = s\<lparr>locked := True, passwordBuffer := [], debugAbortSequenceCount := 0,
                    debugAbortSequenceLastTime := 0, didPauseMedia := False\<rparr>;
            s2 = (if (case settings s1 of None \<Rightarrow> False | Some c \<Rightarrow> pause_media c)
                  then pauseAllMedia b (s1\<lparr>didPauseMedia := True\<rparr>) else s1);
            ov = \<lparr>screenshots = [], destroyed = False\<rparr>;
            cs = (if (case settings s2 of None \<Rightarrow> False | Some c \<Rightarrow> freeze_display c)
                  then captureScreens ov captures (tmpFiles s2) else (ov, tmpFiles s2));
            s3 = s2\<lparr>lockOverlay := Some (fst cs), tmpFiles := snd cs\<rparr>
        in if setup_ok then syncPasswordPrompt s3 else unlock True s3)"

text \<open>
  \<open>_verifyPassword\<close> up to the point where it waits: the helper is started with a
  fixed argument list, and the password and a newline are written to its standard
  input.  \<open>Gio.Subprocess.new\<close> takes no environment, so the child inherits the
  shell's own.
\<close>

definition verifyPassword_spawn :: "jsstring \<Rightarrow> bool \<Rightarrow> jsstring \<Rightarrow> subprocess" where
  "verifyPassword_spawn helper debugMode password =
     \<lparr>argv = [ascii ''python3'', ascii ''-B'', helper] @
              (if debugMode then [ascii ''--debug''] else []),
      proc_flags = STDIN_PIPE #
              (if debugMode then [STDOUT_PIPE, STDERR_PIPE]
               else [STDOUT_SILENCE, STDERR_SILENCE]),
      env_overrides = [],
      stdin_data = password @ ascii [CHR 0x0A]\<rparr>"

definition verifyPassword :: "jsstring \<Rightarrow> engine \<Rightarrow> engine" where
  "verifyPassword password s =
     s\<lparr>authSpawned := authSpawned s @
                       [verifyPassword_spawn (helperPath s) (isDebugMode s) password],
       authPending := authPending s @ [password]\<rparr>"

text \<open>
  \<open>_attemptUnlock\<close> is asynchronous.  Its first half runs inside the key handler: the
  buffer is copied and cleared and the helper is started.  Its second half runs when
  the verification resolves.
\<close>

definition attemptUnlock :: "engine \<Rightarrow> engine" where
  "attemptUnlock s =
     (if length (passwordBuffer s) = 0 then s
      else
        let password = passwordBuffer s;
            s1 = updatePasswordPrompt (s\<lparr>passwordBuffer := []\<rparr>)
        in verifyPassword password s1)"

definition attemptUnlock_resolved :: "bool \<Rightarrow> engine \<Rightarrow> engine" where
  "attemptUnlock_resolved success s =
     (if success then unlock False s else resetPasswordTimeout s)"

definition fallbackToSystemLock :: "engine \<Rightarrow> engine" where
  "fallbackToSystemLock s = (unlock True s)\<lparr>systemLockRequested := True\<rparr>"

definition handleDebugAbortSequence :: "int \<Rightarrow> engine \<Rightarrow> engine" where
  "handleDebugAbortSequence now s =
     (if \<not> isDebugMode s \<or> \<not> locked s then s
      else
        let s1 = (if now - debugAbortSequenceLastTime s > 1200
                  then s\<lparr>debugAbortSequenceCount := 0\<rparr> else s);
            s2 = s1\<lparr>debugAbortSequenceLastTime := now,
                    debugAbortSequenceCount := debugAbortSequenceCount s1 + 1\<rparr>
        in if debugAbortSequenceCount s2 \<ge> 5 then unlock True s2 else s2)"

section \<open>The key handler\<close>

datatype handler_result = EVENT_STOP | EVENT_PROPAGATE | Threw js_error

text \<open>
  \<open>_onKeyPress\<close>, branch by branch.  \<open>now\<close> is what \<open>Date.now()\<close> returns during the
  call.  The debug label and the log lines are not modelled.
\<close>

definition onKeyPress ::
  "(nat \<Rightarrow> nat) \<Rightarrow> int \<Rightarrow> key_event \<Rightarrow> engine \<Rightarrow> handler_result \<times> engine" where
  "onKeyPress keysym_to_unicode now ev s0 =
     (if \<not> locked s0 then (EVENT_PROPAGATE, s0)
      else
        let keyval = key_symbol ev;
            mods = modifier_state ev;
            keychar = manualMapping keyval (platformKeychar keysym_to_unicode ev);
            s = resetPasswordTimeout s0;
            emergencyModifiers =
              (mods AND CONTROL_MASK \<noteq> 0 \<and> mods AND MOD1_MASK \<noteq> 0 \<and>
               mods AND SHIFT_MASK \<noteq> 0);
            isCtrl = (mods AND CONTROL_MASK \<noteq> 0)
        in
          if emergencyModifiers \<and> (keyval = KEY_l \<or> keyval = KEY_L) then
            (EVENT_STOP, fallbackToSystemLock s)
          else if keyval = KEY_Return \<or> keyval = KEY_KP_Enter then
            (EVENT_STOP, updatePasswordPrompt (attemptUnlock s))
          else if isCtrl \<and> (keyval = KEY_r \<or> keyval = KEY_R) \<and>
                  passwordPromptText s \<noteq> None then
            (EVENT_STOP,
             updatePasswordPrompt (s\<lparr>passwordPromptRevealed := \<not> passwordPromptRevealed s\<rparr>))
          else if keyval = KEY_BackSpace then
            (EVENT_STOP,
             updatePasswordPrompt
               (if length (passwordBuffer s) > 0
                then s\<lparr>passwordBuffer := butlast (passwordBuffer s)\<rparr> else s))
          else if keyval = KEY_Escape then
            (EVENT_STOP,
             updatePasswordPrompt (handleDebugAbortSequence now (s\<lparr>passwordBuffer := []\<rparr>)))
          else if keyval = KEY_Shift_L \<or> keyval = KEY_Shift_R \<or>
                  keyval = KEY_Control_L \<or> keyval = KEY_Control_R \<or>
                  keyval = KEY_Alt_L \<or> keyval = KEY_Alt_R \<or>
                  keyval = KEY_Super_L \<or> keyval = KEY_Super_R \<or>
                  keyval = KEY_Caps_Lock \<or> keyval = KEY_Num_Lock then
            (EVENT_STOP, s)
          else if keychar \<noteq> 0 then
            (case fromCodePoint keychar of
               Inl e \<Rightarrow> (Threw e, s)
             | Inr cs \<Rightarrow>
                 (EVENT_STOP,
                  updatePasswordPrompt (s\<lparr>passwordBuffer := passwordBuffer s @ cs\<rparr>)))
          else (EVENT_STOP, s))"

text \<open>
  The engine is event driven and single threaded.  Between two events nothing runs:
  a key press, the resolution of the \<open>i\<close>-th pending verification (with its outcome),
  the inactivity timer firing, or the reply to the \<open>Play\<close> call that the \<open>i\<close>-th
  running resume of the media waits for.  A key handler that throws leaves the session
  as it was at the throw.
\<close>

datatype event =
  KeyPress int key_event
| AuthResolved nat bool
| ResetTimeoutFired
| PlayReplied nat

definition step :: "(nat \<Rightarrow> nat) \<Rightarrow> engine \<Rightarrow> event \<Rightarrow> engine" where
  "step keysym_to_unicode s e =
     (case e of
        KeyPress now ev \<Rightarrow> snd (onKeyPress keysym_to_unicode now ev s)
      | AuthResolved i success \<Rightarrow>
          (if i < length (authPending s)
           then attemptUnlock_resolved success
                  (s\<lparr>authPending := take i (authPending s) @ drop (Suc i) (authPending s)\<rparr>)
           else s)
      | ResetTimeoutFired \<Rightarrow>
          (case passwordResetTimeout s of
             None \<Rightarrow> s
           | Some _ \<Rightarrow>
               (updatePasswordPrompt (s\<lparr>passwordBuffer := []\<rparr>))\<lparr>passwordResetTimeout := None\<rparr>)
      | PlayReplied i \<Rightarrow> resumeAllMedia_replied i s)"

definition run :: "(nat \<Rightarrow> nat) \<Rightarrow> engine \<Rightarrow> event list \<Rightarrow> engine" where
  "run keysym_to_unicode s es = foldl (step keysym_to_unicode) s es"

text \<open>A session right after \<open>enable\<close>: the constructor's values and the settings.\<close>

definition initial :: "settings \<Rightarrow> jsstring \<Rightarrow> engine" where
  "initial c helper =
     \<lparr>settings = Some c, helperPath = helper, locked = False, passwordBuffer = [],
      passwordResetTimeout = None, debugAbortSequenceCount = 0,
      debugAbortSequenceLastTime = 0, passwordPromptText = None,
      passwordPromptRevealed = False, pausedPlayers = [], didPauseMedia = False,
      lockOverlay = None, authSpawned = [], authPending = [], busCalls = [],
      resumeTasks = [], tmpFiles = [], unlinked = [], systemLockRequested = False\<rparr>"

section \<open>The cursor renderer\<close>

text \<open>
  The cursor is embedded as two XBM planes of bytes, least significant bit first: the
  mask plane says which pixels are visible, the other plane selects foreground or
  background inside the mask.
\<close>

record xbm =
  width :: nat
  height :: nat
  hotX :: nat
  hotY :: nat
  bits :: "nat list"
  maskBits :: "nat list"

definition LOCK_CURSOR_XBM :: xbm where
  "LOCK_CURSOR_XBM =
    \<lparr>width = 28, height = 40, hotX = 14, hotY = 21,
     bits = [
      0xff, 0xff, 0xff, 0xff, 0xff, 0x01, 0xf8, 0xff, 0x7f, 0x00, 0xe0, 0xff,
      0x3f, 0x00, 0xc0, 0xff, 0x1f, 0x00, 0x80, 0xff, 0x0f, 0xfc, 0x03, 0xff,
      0x0f, 0xfe, 0x07, 0xff, 0x0f, 0xff, 0x0f, 0xff, 0x07, 0xff, 0x0f, 0xfe,
      0x87, 0xff, 0x1f, 0xfe, 0x87, 0xff, 0x1f, 0xfe, 0x87, 0xff, 0x1f, 0xfe,
      0x87, 0xff, 0x1f, 0xfe, 0x87, 0xff, 0x1f, 0xfe, 0x87, 0xff, 0x1f, 0xfe,
      0x87, 0xff, 0x1f, 0xfe, 0x87, 0xff, 0x1f, 0xfe, 0x87, 0xff, 0x1f, 0xfe,
      0x87, 0xff, 0x1f, 0xfe, 0x01, 0x00, 0x00, 0xf8, 0x01, 0x00, 0x00, 0xf8,
      0x01, 0x00, 0x00, 0xf8, 0x01, 0x00, 0x00, 0xf8, 0x01, 0xf0, 0x00, 0xf8,
      0x01, 0xf8, 0x01, 0xf8, 0x01, 0xf8, 0x01, 0xf8, 0x01, 0xf8, 0x01, 0xf8,
      0x01, 0xf8, 0x01, 0xf8, 0x01, 0xf0, 0x00, 0xf8, 0x01, 0x60, 0x00, 0xf8,
      0x01, 0x60, 0x00, 0xf8, 0x01, 0x60, 0x00, 0xf8, 0x01, 0x60, 0x00, 0xf8,
      0x01, 0x60, 0x00, 0xf8, 0x01, 0x60, 0x00, 0xf8, 0x01, 0x00, 0x00, 0xf8,
      0x01, 0x00, 0x00, 0xf8, 0x01, 0x00, 0x00, 0xf8, 0x01, 0x00, 0x00, 0xf8,
      0xff, 0xff, 0xff, 0xff],
     maskBits = [
      0x00, 0xfe, 0x07, 0x00, 0x80, 0xff, 0x1f, 0x00, 0xc0, 0xff, 0x3f, 0x00,
      0xe0, 0xff, 0x7f, 0x00, 0xf0, 0xff, 0xff, 0x00, 0xf8, 0xff, 0xff, 0x01,
      0xf8, 0x03, 0xfc, 0x01, 0xf8, 0x01, 0xf8, 0x01, 0xfc, 0x01, 0xf8, 0x03,
      0xfc, 0x00, 0xf0, 0x03, 0xfc, 0x00, 0xf0, 0x03, 0xfc, 0x00, 0xf0, 0x03,
      0xfc, 0x00, 0xf0, 0x03, 0xfc, 0x00, 0xf0, 0x03, 0xfc, 0x00, 0xf0, 0x03,
      0xfc, 0x00, 0xf0, 0x03, 0xfc, 0x00, 0xf0, 0x03, 0xfc, 0x00, 0xf0, 0x03,
      0xff, 0xff, 0xff, 0x0f, 0xff, 0xff, 0xff, 0x0f, 0xff, 0xff, 0xff, 0x0f,
      0xff, 0xff, 0xff, 0x0f, 0xff, 0xff, 0xff, 0x0f, 0xff, 0xff, 0xff, 0x0f,
      0xff, 0xff, 0xff, 0x0f, 0xff, 0xff, 0xff, 0x0f, 0xff, 0xff, 0xff, 0x0f,
      0xff, 0xff, 0xff, 0x0f, 0xff, 0xff, 0xff, 0x0f, 0xff, 0xff, 0xff, 0x0f,
      0xff, 0xff, 0xff, 0x0f, 0xff, 0xff, 0xff, 0x0f, 0xff, 0xff, 0xff, 0x0f,
      0xff, 0xff, 0xff, 0x0f, 0xff, 0xff, 0xff, 0x0f, 0xff, 0xff, 0xff, 0x0f,
      0xff, 0xff, 0xff, 0x0f, 0xff, 0xff, 0xff, 0x0f, 0xff, 0xff, 0xff, 0x0f,
      0xff, 0xff, 0xff, 0x0f]\<rparr>"

text \<open>
  The colours are optional, and so is each of them.  A colour is an array of numbers;
  \<open>channel\<close> is what a store of \<open>color[k]\<close> into a \<open>Uint8Array\<close> leaves there: the
  number modulo 256, and 0 for a component the array does not have.
\<close>

record cursor_colors =
  fg :: "nat list option"
  bg :: "nat list option"

definition channel :: "nat list \<Rightarrow> nat \<Rightarrow> nat" where
  "channel color k = (if k < length color then color ! k mod 256 else 0)"

text \<open>
  \<open>_xbmBit\<close>.  A read past the end of the plane is \<open>undefined\<close> in JavaScript, and
  \<open>(undefined >> bit) & 1\<close> is 0.
\<close>

definition xbmBit :: "nat list \<Rightarrow> nat \<Rightarrow> nat \<Rightarrow> nat \<Rightarrow> nat" where
  "xbmBit data bytesPerRow x y =
     (let i = (y * bytesPerRow) + drop_bit 3 x;
          b = x AND 7
      in drop_bit b (if i < length data then data ! i else 0) AND 1)"

text \<open>
  \<open>_renderXbmCursorRgba\<close>.  The colours default to opaque white on black at alpha
  200.  The source coordinate of a destination coordinate is
  \<open>Math.min(size - 1, Math.floor(i * size / target))\<close>; the sizes are positive and the
  products far below 2^53, where the floor of the floating-point quotient is the
  integer quotient.
\<close>

definition fgColor :: "cursor_colors option \<Rightarrow> nat list" where
  "fgColor colors =
     (case colors of None \<Rightarrow> [255, 255, 255, 255]
      | Some c \<Rightarrow> (case fg c of None \<Rightarrow> [255, 255, 255, 255] | Some v \<Rightarrow> v))"

definition bgColor :: "cursor_colors option \<Rightarrow> nat list" where
  "bgColor colors =
     (case colors of None \<Rightarrow> [0, 0, 0, 200]
      | Some c \<Rightarrow> (case bg c of None \<Rightarrow> [0, 0, 0, 200] | Some v \<Rightarrow> v))"

definition srcCoord :: "nat \<Rightarrow> nat \<Rightarrow> nat \<Rightarrow> nat" where
  "srcCoord srcSize targetSize i = min (srcSize - 1) ((i * srcSize) div targetSize)"

text \<open>
  The body of the inner loop, for the destination pixel \<open>(x, y)\<close>: nothing is written
  where the mask bit is 0, the four bytes of the chosen colour otherwise.  A store past
  the end of a typed array is dropped, as \<open>list_update\<close> drops it.
\<close>

definition renderPixel ::
  "xbm \<Rightarrow> nat \<Rightarrow> nat \<Rightarrow> cursor_colors option \<Rightarrow> nat \<Rightarrow> nat list \<Rightarrow> nat \<Rightarrow> nat list" where
  "renderPixel x_bm targetWidth targetHeight colors y rgba x =
     (let srcBytesPerRow = (width x_bm + 7) div 8;
          srcY = srcCoord (height x_bm) targetHeight y;
          srcX = srcCoord (width x_bm) targetWidth x;
          masked = xbmBit (maskBits x_bm) srcBytesPerRow srcX srcY
      in if masked = 0 then rgba
         else
           let sourceBit = xbmBit (bits x_bm) srcBytesPerRow srcX srcY;
               color = (if sourceBit \<noteq> 0 then fgColor colors else bgColor colors);
               idx = ((y * targetWidth) + x) * 4
           in rgba[idx + 0 := channel color 0,
                   idx + 1 := channel color 1,
                   idx + 2 := channel color 2,
                   idx + 3 := channel color 3])"

text \<open>The two nested loops over the destination pixels, on the zero-filled array.\<close>

definition renderXbmCursorRgba ::
  "xbm \<Rightarrow> nat \<Rightarrow> nat \<Rightarrow> cursor_colors option \<Rightarrow> nat list" where
  "renderXbmCursorRgba x_bm targetWidth targetHeight colors =
     foldl
       (\<lambda>rgba y. foldl (renderPixel x_bm targetWidth targetHeight colors y) rgba
                    [0..<targetWidth])
       (replicate (targetWidth * targetHeight * 4) 0)
       [0..<targetHeight]"

section \<open>Example sessions and events\<close>

text \<open>
  Concrete sessions and key events on which the theorems below are instantiated: a
  session right after \<open>enable\<close>, the same locked with an empty prompt (normal lock
  type), that one with debug mode on, and a few keys.  \<open>presses\<close> turns timed key events into events of the engine, and
  \<open>gaps_within\<close> is the test \<open>_handleDebugAbortSequence\<close> makes between one Escape and
  the next.
\<close>

definition example_settings :: settings where
  "example_settings =
     \<lparr>debug_mode = False, auto_reset_seconds = 5, pause_media = True,
      freeze_display = True, normal_lock_type = True\<rparr>"

definition example_unlocked :: engine where
  "example_unlocked = initial example_settings (ascii ''/ext/polkit-auth-helper.py'')"

definition example_session :: engine where
  "example_session = example_unlocked\<lparr>locked := True, passwordPromptText := Some []\<rparr>"

definition example_debug_session :: engine where
  "example_debug_session =
     example_session\<lparr>settings := Some (example_settings\<lparr>debug_mode := True\<rparr>)\<rparr>"

definition emoji_key :: key_event where
  "emoji_key = \<lparr>key_symbol = 0x0101F600, modifier_state = 0, key_unicode = 0\<rparr>"

definition backspace_key :: key_event where
  "backspace_key = \<lparr>key_symbol = KEY_BackSpace, modifier_state = 0, key_unicode = 0\<rparr>"

definition enter_key :: key_event where
  "enter_key = \<lparr>key_symbol = KEY_Return, modifier_state = 0, key_unicode = 0\<rparr>"

definition escape_key :: key_event where
  "escape_key = \<lparr>key_symbol = KEY_Escape, modifier_state = 0, key_unicode = 0\<rparr>"

definition char_key :: "nat \<Rightarrow> key_event" where
  "char_key c = \<lparr>key_symbol = c, modifier_state = 0, key_unicode = c\<rparr>"

definition presses :: "(int \<times> key_event) list \<Rightarrow> event list" where
  "presses ps = map (\<lambda>p. KeyPress (fst p) (snd p)) ps"

fun gaps_within :: "int \<Rightarrow> int list \<Rightarrow> bool" where
  "gaps_within t0 [] = True"
| "gaps_within t0 (t # ts) = (t - t0 \<le> 1200 \<and> gaps_within t ts)"

text \<open>
  An accepted character keystroke: a key event that reaches the last branch of
  \<open>_onKeyPress\<close> with a character to append.
\<close>

definition decoded :: "(nat \<Rightarrow> nat) \<Rightarrow> key_event \<Rightarrow> nat" where
  "decoded k2u ev = manualMapping (key_symbol ev) (platformKeychar k2u ev)"

definition char_press :: "(nat \<Rightarrow> nat) \<Rightarrow> key_event \<Rightarrow> bool" where
  "char_press k2u ev =
     (let kv = key_symbol ev; m = modifier_state ev
      in \<not> (m AND CONTROL_MASK \<noteq> 0 \<and> m AND MOD1_MASK \<noteq> 0 \<and> m AND SHIFT_MASK \<noteq> 0 \<and>
            (kv = KEY_l \<or> kv = KEY_L)) \<and>
         \<not> (m AND CONTROL_MASK \<noteq> 0 \<and> (kv = KEY_r \<or> kv = KEY_R)) \<and>
         kv \<notin> {KEY_Return, KEY_KP_Enter, KEY_BackSpace, KEY_Escape,
                KEY_Shift_L, KEY_Shift_R, KEY_Control_L, KEY_Control_R, KEY_Alt_L, KEY_Alt_R,
                KEY_Super_L, KEY_Super_R, KEY_Caps_Lock, KEY_Num_Lock} \<and>
         decoded k2u ev \<noteq> 0 \<and> decoded k2u ev \<le> 0x10FFFF)"

text \<open>
  Shorthands for the statements about the media calls and the cursor: the calls
  \<open>_pausePlayer\<close> issues for one player, whether a player ends up recorded, the players
  \<open>_pauseAllMedia\<close> visits, and the mask bit and the colour that the renderer reads
  for a destination pixel.
\<close>

definition pause_calls :: "bus \<Rightarrow> string \<Rightarrow> bus_call list" where
  "pause_calls b p =
     GetPlaybackStatus p # (if playback_status b p = Some ''Playing'' then [Pause p] else [])"

definition paused_ok :: "bus \<Rightarrow> string \<Rightarrow> bool" where
  "paused_ok b p = (playback_status b p = Some ''Playing'' \<and> pause_succeeds b p)"

definition mpris_names :: "bus \<Rightarrow> string list" where
  "mpris_names b =
     (case list_names b of None \<Rightarrow> []
      | Some names \<Rightarrow> filter (\<lambda>n. startsWith n MPRIS_PREFIX) names)"

definition maskAt :: "xbm \<Rightarrow> nat \<Rightarrow> nat \<Rightarrow> nat \<Rightarrow> nat \<Rightarrow> nat" where
  "maskAt X w h x y =
     xbmBit (maskBits X) ((width X + 7) div 8) (srcCoord (width X) w x) (srcCoord (height X) h y)"

definition colorAt :: "xbm \<Rightarrow> nat \<Rightarrow> nat \<Rightarrow> cursor_colors option \<Rightarrow> nat \<Rightarrow> nat \<Rightarrow> nat list" where
  "colorAt X w h c x y =
     (if xbmBit (bits X) ((width X + 7) div 8) (srcCoord (width X) w x) (srcCoord (height X) h y) \<noteq> 0
      then fgColor c else bgColor c)"

text \<open>
  A session bus with one playing and one paused player, the same bus with both
  playing, and the captures of two monitors: one succeeds, the other fails after its
  file was created.
\<close>

definition example_bus :: bus where
  "example_bus =
     \<lparr>list_names = Some [''org.mpris.MediaPlayer2.vlc'', ''org.mpris.MediaPlayer2.mpv'',
                         ''org.freedesktop.Notifications''],
      playback_status = (\<lambda>p. if p = ''org.mpris.MediaPlayer2.vlc'' then Some ''Playing''
                              else Some ''Paused''),
      pause_succeeds = (\<lambda>p. True)\<rparr>"

definition example_bus_both :: bus where
  "example_bus_both =
     \<lparr>list_names = Some [''org.mpris.MediaPlayer2.vlc'', ''org.mpris.MediaPlayer2.mpv'',
                         ''org.freedesktop.Notifications''],
      playback_status = (\<lambda>p. Some ''Playing''),
      pause_succeeds = (\<lambda>p. True)\<rparr>"

definition example_captures :: "capture list" where
  "example_captures =
     [\<lparr>cap_filename = ''/tmp/stealth-lock-0-1.png'', replace_ok = True,
       stream_capture = Some True, legacy_capture = None\<rparr>,
      \<lparr>cap_filename = ''/tmp/stealth-lock-1-2.png'', replace_ok = True,
       stream_capture = Some False, legacy_capture = None\<rparr>]"

section \<open>Basic facts about the operations\<close>

lemmas key_defs =
  KEY_Return_def KEY_KP_Enter_def KEY_BackSpace_def KEY_Escape_def KEY_l_def KEY_L_def
  KEY_r_def KEY_R_def KEY_Shift_L_def KEY_Shift_R_def KEY_Control_L_def KEY_Control_R_def
  KEY_Caps_Lock_def KEY_Alt_L_def KEY_Alt_R_def KEY_Super_L_def KEY_Super_R_def
  KEY_Num_Lock_def KEY_KP_0_def KEY_KP_9_def KEY_KP_Decimal_def KEY_KP_Separator_def
  KEY_KP_Add_def KEY_KP_Subtract_def KEY_KP_Multiply_def KEY_KP_Divide_def

lemmas mask_defs = SHIFT_MASK_def CONTROL_MASK_def MOD1_MASK_def

lemma updatePasswordPrompt_eq:
  "updatePasswordPrompt s =
     s\<lparr>passwordPromptText :=
         map_option (\<lambda>_. if passwordPromptRevealed s then passwordBuffer s
                          else replicate (length (passwordBuffer s)) PASSWORD_BULLET)
           (passwordPromptText s)\<rparr>"
  by (simp add: updatePasswordPrompt_def split: option.splits)

lemma resetPasswordTimeout_eq:
  "resetPasswordTimeout s =
     s\<lparr>passwordResetTimeout :=
         (let seconds = (case settings s of None \<Rightarrow> DEFAULT_AUTO_RESET_SECONDS
                         | Some c \<Rightarrow> auto_reset_seconds c)
          in if seconds = 0 then None else Some (seconds * 1000))\<rparr>"
  by (simp add: resetPasswordTimeout_def clearPasswordResetTimeout_def Let_def)



lemma attemptUnlock_clears_buffer: "passwordBuffer (attemptUnlock s) = []"
  by (auto simp: attemptUnlock_def Let_def verifyPassword_def updatePasswordPrompt_eq)

lemma onKeyPress_unlocked: "\<not> locked s \<Longrightarrow> onKeyPress k2u now ev s = (EVENT_PROPAGATE, s)"
  by (simp add: onKeyPress_def)

lemma onKeyPress_Enter:
  assumes "locked s" and "key_symbol ev = KEY_Return \<or> key_symbol ev = KEY_KP_Enter"
  shows "onKeyPress k2u now ev s =
           (EVENT_STOP, updatePasswordPrompt (attemptUnlock (resetPasswordTimeout s)))"
  using assms by (auto simp: onKeyPress_def Let_def key_defs)

lemma onKeyPress_BackSpace:
  assumes "locked s" and "key_symbol ev = KEY_BackSpace"
  shows "onKeyPress k2u now ev s =
           (EVENT_STOP, updatePasswordPrompt
              ((resetPasswordTimeout s)\<lparr>passwordBuffer := butlast (passwordBuffer s)\<rparr>))"
  using assms
  by (cases s) (simp add: onKeyPress_def Let_def key_defs resetPasswordTimeout_eq
        updatePasswordPrompt_eq)

lemma onKeyPress_Escape:
  assumes "locked s" and "key_symbol ev = KEY_Escape"
  shows "onKeyPress k2u now ev s =
           (EVENT_STOP, updatePasswordPrompt
              (handleDebugAbortSequence now ((resetPasswordTimeout s)\<lparr>passwordBuffer := []\<rparr>)))"
  using assms by (simp add: onKeyPress_def Let_def key_defs)



lemma example_session_fields:
  "locked example_session" "passwordBuffer example_session = []"
  "passwordPromptText example_session = Some []"
  "\<not> passwordPromptRevealed example_session"
  "authPending example_session = []" "authSpawned example_session = []"
  "settings example_session = Some \<lparr>debug_mode = False, auto_reset_seconds = 5, pause_media = True,
          freeze_display = True, normal_lock_type = True\<rparr>"
  by (simp_all add: example_session_def example_unlocked_def example_settings_def initial_def)

lemma attemptUnlock_nonempty:
  assumes "passwordBuffer s \<noteq> []"
  shows "attemptUnlock s =
     (updatePasswordPrompt (s\<lparr>passwordBuffer := []\<rparr>))
       \<lparr>authSpawned := authSpawned s @
           [verifyPassword_spawn (helperPath s) (isDebugMode s) (passwordBuffer s)],
        authPending := authPending s @ [passwordBuffer s]\<rparr>"
  using assms
  by (simp add: attemptUnlock_def verifyPassword_def Let_def updatePasswordPrompt_eq
        isDebugMode_def)

lemma attemptUnlock_empty: "passwordBuffer s = [] \<Longrightarrow> attemptUnlock s = s"
  by (simp add: attemptUnlock_def)

lemma auth_failure_keeps_buffer:
  "passwordBuffer (step k2u t (AuthResolved i False)) = passwordBuffer t"
  by (simp add: step_def attemptUnlock_resolved_def resetPasswordTimeout_eq)

lemma char_key_step:
  assumes "locked s" and "0x61 \<le> c" and "c \<le> 0x7a"
  shows "snd (onKeyPress k2u now (char_key c) s) =
     updatePasswordPrompt ((resetPasswordTimeout s)\<lparr>passwordBuffer := passwordBuffer s @ [c]\<rparr>)"
  using assms
  by (simp add: onKeyPress_def char_key_def Let_def manualMapping_def
      platformKeychar_def key_defs mask_defs fromCodePoint_def resetPasswordTimeout_eq)

lemma resumeAllMedia_eq:
  "resumeAllMedia s =
     (case pausedPlayers s of
        [] \<Rightarrow> s
      | p # ps \<Rightarrow> s\<lparr>busCalls := busCalls s @ [Play p],
                      resumeTasks := resumeTasks s @ [p # ps]\<rparr>)"
  by (cases s) (simp add: resumeAllMedia_def resumePlayer_def split: list.splits)

lemma unlock_fields:
  assumes "force \<or> locked s"
  shows "\<not> locked (unlock force s)"
    and "settings (unlock force s) = settings s"
    and "authSpawned (unlock force s) = authSpawned s"
    and "authPending (unlock force s) = authPending s"
    and "passwordBuffer (unlock force s) = []"
    and "passwordPromptText (unlock force s) = None"
    and "lockOverlay (unlock force s) = None"
    and "debugAbortSequenceCount (unlock force s) = debugAbortSequenceCount s"
    and "debugAbortSequenceLastTime (unlock force s) = debugAbortSequenceLastTime s"
  using assms
  by (auto simp: unlock_def Let_def destroyPasswordPrompt_def clearPasswordResetTimeout_def
        resumeAllMedia_eq split: option.splits list.splits prod.splits)

text \<open>What one Escape press does to the fields the abort sequence depends on.\<close>

lemma escape_press:
  fixes k2u :: "nat \<Rightarrow> nat" and now :: int
  assumes "locked s" and "key_symbol ev = KEY_Escape"
  defines "s' \<equiv> snd (onKeyPress k2u now ev s)"
  shows "settings s' = settings s"
    and "authSpawned s' = authSpawned s"
    and "authPending s' = authPending s"
    and "passwordBuffer s' = []"
    and "\<not> isDebugMode s \<Longrightarrow> locked s'"
    and "isDebugMode s \<Longrightarrow> debugAbortSequenceLastTime s' = now"
    and "isDebugMode s \<Longrightarrow> debugAbortSequenceCount s' =
           (if now - debugAbortSequenceLastTime s > 1200 then 1
            else debugAbortSequenceCount s + 1)"
    and "isDebugMode s \<Longrightarrow> locked s' = (debugAbortSequenceCount s' < 5)"
  unfolding s'_def onKeyPress_Escape[OF assms(1,2)]
  using assms(1)
  by (auto simp: updatePasswordPrompt_eq handleDebugAbortSequence_def Let_def
        resetPasswordTimeout_eq isDebugMode_def unlock_fields)

lemma run_Cons: "run k2u s (e # es) = run k2u (step k2u s e) es"
  by (simp add: run_def)

lemma run_Nil: "run k2u s [] = s"
  by (simp add: run_def)

lemma step_KeyPress: "step k2u s (KeyPress now ev) = snd (onKeyPress k2u now ev s)"
  by (simp add: step_def)

lemma run_presses_unlocked: "\<not> locked s \<Longrightarrow> run k2u s (presses ps) = s"
  by (induction ps arbitrary: s)
     (simp_all add: presses_def run_Nil run_Cons step_KeyPress onKeyPress_unlocked)

section \<open>C1: one verification at a time\<close>

text \<open>
  C1 fails as stated.  The engine keeps no record of a verification in flight:
  \<open>_attemptUnlock\<close> only looks at the buffer.  Typing a character, Enter, another
  character and Enter again starts two helper processes and leaves two verifications
  pending at once.
\<close>

theorem two_verifications_pending_at_once:
  "authPending (run (\<lambda>k. 0) example_session
      [KeyPress 0 (char_key 0x61), KeyPress 1 enter_key,
       KeyPress 2 (char_key 0x62), KeyPress 3 enter_key]) = [[0x61], [0x62]] \<and>
   map stdin_data (authSpawned (run (\<lambda>k. 0) example_session
      [KeyPress 0 (char_key 0x61), KeyPress 1 enter_key,
       KeyPress 2 (char_key 0x62), KeyPress 3 enter_key])) = [[0x61, 0x0A], [0x62, 0x0A]]"
  by (simp add: run_def step_def char_key_step onKeyPress_Enter enter_key_def
      example_session_fields updatePasswordPrompt_eq resetPasswordTimeout_eq
      attemptUnlock_nonempty verifyPassword_spawn_def ascii_def)

text \<open>
  C1, as the code has it: an Enter press on an empty buffer starts no verification, and
  the buffer is empty after every Enter press, so a second Enter press that follows the
  first directly starts nothing: the pending and the started verifications stay as the
  first press left them.
\<close>

theorem enter_on_empty_buffer_starts_nothing:
  assumes "locked s"
    and "key_symbol ev = KEY_Return \<or> key_symbol ev = KEY_KP_Enter"
    and "key_symbol ev' = KEY_Return \<or> key_symbol ev' = KEY_KP_Enter"
  shows "let s1 = snd (onKeyPress k2u now ev s);
             s2 = snd (onKeyPress k2u now' ev' s1)
         in (passwordBuffer s = [] \<longrightarrow>
               authPending s1 = authPending s \<and> authSpawned s1 = authSpawned s) \<and>
            passwordBuffer s1 = [] \<and>
            authPending s2 = authPending s1 \<and> authSpawned s2 = authSpawned s1"
proof -
  let ?s1 = "snd (onKeyPress k2u now ev s)"
  have e1: "?s1 = updatePasswordPrompt (attemptUnlock (resetPasswordTimeout s))"
    by (simp add: onKeyPress_Enter[OF assms(1) assms(2)])
  have a: "passwordBuffer s = [] \<longrightarrow>
               authPending ?s1 = authPending s \<and> authSpawned ?s1 = authSpawned s"
    unfolding e1
    by (simp add: attemptUnlock_empty updatePasswordPrompt_eq resetPasswordTimeout_eq)
  have b: "passwordBuffer ?s1 = []"
    unfolding e1 by (simp add: updatePasswordPrompt_eq attemptUnlock_clears_buffer)
  have l: "locked ?s1"
    unfolding e1 using assms(1)
    by (cases "passwordBuffer s = []")
       (simp_all add: attemptUnlock_empty attemptUnlock_nonempty updatePasswordPrompt_eq
          resetPasswordTimeout_eq)
  have e2: "snd (onKeyPress k2u now' ev' ?s1) =
              updatePasswordPrompt (attemptUnlock (resetPasswordTimeout ?s1))"
    by (simp add: onKeyPress_Enter[OF l assms(3)])
  have c: "authPending (snd (onKeyPress k2u now' ev' ?s1)) = authPending ?s1 \<and>
           authSpawned (snd (onKeyPress k2u now' ev' ?s1)) = authSpawned ?s1"
    unfolding e2 using b
    by (simp add: attemptUnlock_empty updatePasswordPrompt_eq resetPasswordTimeout_eq)
  show ?thesis unfolding Let_def using a b c by blast
qed

theorem enter_on_empty_buffer_starts_nothing_witness:
  "locked (example_session\<lparr>passwordBuffer := [0x61]\<rparr>) \<and>
   authPending (run (\<lambda>k. 0) (example_session\<lparr>passwordBuffer := [0x61]\<rparr>)
      [KeyPress 0 enter_key, KeyPress 1 enter_key]) =
   authPending (run (\<lambda>k. 0) (example_session\<lparr>passwordBuffer := [0x61]\<rparr>) [KeyPress 0 enter_key])"
  using enter_on_empty_buffer_starts_nothing[of "example_session\<lparr>passwordBuffer := [0x61]\<rparr>"
          enter_key enter_key "\<lambda>k. 0" 0 1]
  by (simp add: example_session_fields enter_key_def Let_def run_def step_def[of _ _ "KeyPress _ _"])

section \<open>C2: the buffer is cleared when the attempt starts\<close>

text \<open>
  C2: an Enter press on a non-empty buffer, in a locked session, hands the buffer's
  content to the verification as its candidate and leaves the buffer empty before
  anything resolves; the session stays locked meanwhile.  A verification that resolves
  with a failure never changes the buffer, so the rejected password is not put back.
\<close>

theorem enter_snapshots_and_clears_buffer:
  assumes "locked s" and "passwordBuffer s \<noteq> []"
    and "key_symbol ev = KEY_Return \<or> key_symbol ev = KEY_KP_Enter"
  shows "let s' = snd (onKeyPress k2u now ev s)
         in passwordBuffer s' = [] \<and>
            authPending s' = authPending s @ [passwordBuffer s] \<and>
            authSpawned s' = authSpawned s @
              [verifyPassword_spawn (helperPath s) (isDebugMode s) (passwordBuffer s)] \<and>
            locked s' \<and>
            (\<forall>i. passwordBuffer (step k2u s' (AuthResolved i False)) = []) \<and>
            (\<forall>t i. passwordBuffer (step k2u t (AuthResolved i False)) = passwordBuffer t)"
proof -
  let ?r = "resetPasswordTimeout s"
  have b: "passwordBuffer ?r \<noteq> []" using assms(2) by (simp add: resetPasswordTimeout_eq)
  have e: "snd (onKeyPress k2u now ev s) = updatePasswordPrompt (attemptUnlock ?r)"
    by (simp add: onKeyPress_Enter[OF assms(1) assms(3)])
  have f: "passwordBuffer (snd (onKeyPress k2u now ev s)) = []"
    "authPending (snd (onKeyPress k2u now ev s)) = authPending s @ [passwordBuffer s]"
    "authSpawned (snd (onKeyPress k2u now ev s)) = authSpawned s @
              [verifyPassword_spawn (helperPath s) (isDebugMode s) (passwordBuffer s)]"
    "locked (snd (onKeyPress k2u now ev s))"
    unfolding e attemptUnlock_nonempty[OF b] using assms(1)
    by (simp_all add: updatePasswordPrompt_eq resetPasswordTimeout_eq isDebugMode_def)
  show ?thesis
    unfolding Let_def using f by (simp add: auth_failure_keeps_buffer)
qed

theorem enter_snapshots_and_clears_buffer_witness:
  "locked (example_session\<lparr>passwordBuffer := [0x61, 0x62]\<rparr>) \<and>
   passwordBuffer (snd (onKeyPress (\<lambda>k. 0) 7 enter_key (example_session\<lparr>passwordBuffer := [0x61, 0x62]\<rparr>))) = [] \<and>
   authPending (snd (onKeyPress (\<lambda>k. 0) 7 enter_key (example_session\<lparr>passwordBuffer := [0x61, 0x62]\<rparr>)))
     = [[0x61, 0x62]] \<and>
   passwordBuffer (run (\<lambda>k. 0) (example_session\<lparr>passwordBuffer := [0x61, 0x62]\<rparr>)
                     [KeyPress 7 enter_key, AuthResolved 0 False]) = []"
  using enter_snapshots_and_clears_buffer[of "example_session\<lparr>passwordBuffer := [0x61, 0x62]\<rparr>"
          enter_key "\<lambda>k. 0" 7]
  by (simp add: example_session_fields enter_key_def Let_def run_def step_def[of _ _ "KeyPress _ _"])

section \<open>C3: the candidate travels on standard input only\<close>

text \<open>
  C3: the argument list and the flags of the helper process are the same for every
  candidate password, no environment variable is set for it, and what is written to
  its standard input is the candidate followed by a newline.  The same holds for the
  process the session records as started.
\<close>

theorem helper_started_with_fixed_arguments:
  "argv (verifyPassword_spawn helper debugMode pw1) =
     argv (verifyPassword_spawn helper debugMode pw2) \<and>
   proc_flags (verifyPassword_spawn helper debugMode pw1) =
     proc_flags (verifyPassword_spawn helper debugMode pw2) \<and>
   env_overrides (verifyPassword_spawn helper debugMode pw1) = [] \<and>
   stdin_data (verifyPassword_spawn helper debugMode pw1) = pw1 @ [0x0A] \<and>
   authSpawned (verifyPassword pw1 s) =
     authSpawned s @ [verifyPassword_spawn (helperPath s) (isDebugMode s) pw1] \<and>
   map argv (authSpawned (verifyPassword pw1 s)) = map argv (authSpawned (verifyPassword pw2 s))"
  by (simp add: verifyPassword_spawn_def verifyPassword_def ascii_def)

section \<open>C4: the Escape sequence of debug mode\<close>

lemma sorted_window_gaps:
  "sorted (t0 # ts) \<Longrightarrow> last (t0 # ts) - t0 \<le> 1200 \<Longrightarrow> gaps_within t0 ts"
proof (induction ts arbitrary: t0)
  case Nil
  then show ?case by simp
next
  case (Cons t ts)
  have le: "t0 \<le> t" using Cons.prems(1) by simp
  have "t \<le> last (t # ts)" using Cons.prems(1) by (cases ts) auto
  then have a: "t - t0 \<le> 1200" using Cons.prems(2) by simp
  have "last (t # ts) - t \<le> 1200" using Cons.prems(2) le by simp
  moreover have "sorted (t # ts)" using Cons.prems(1) by simp
  ultimately have "gaps_within t ts" by (rule Cons.IH[rotated])
  with a show ?case by simp
qed

lemma escapes_frame:
  assumes "\<forall>p\<in>set ps. key_symbol (snd p) = KEY_Escape"
  shows "authSpawned (run k2u s (presses ps)) = authSpawned s \<and>
         authPending (run k2u s (presses ps)) = authPending s \<and>
         settings (run k2u s (presses ps)) = settings s"
  using assms
proof (induction ps arbitrary: s)
  case Nil
  then show ?case by (simp add: presses_def run_Nil)
next
  case (Cons p ps)
  let ?s1 = "snd (onKeyPress k2u (fst p) (snd p) s)"
  have k: "key_symbol (snd p) = KEY_Escape" using Cons.prems by simp
  have f: "authSpawned ?s1 = authSpawned s \<and> authPending ?s1 = authPending s \<and>
           settings ?s1 = settings s"
  proof (cases "locked s")
    case True
    from escape_press(1-3)[OF True k] show ?thesis by simp
  next
    case False
    then show ?thesis by (simp add: onKeyPress_unlocked)
  qed
  have r: "run k2u s (presses (p # ps)) = run k2u ?s1 (presses ps)"
    by (simp add: presses_def run_Cons step_KeyPress)
  from Cons.IH[of ?s1] Cons.prems f show ?case unfolding r by simp
qed

lemma escapes_unlock:
  assumes "\<forall>p\<in>set ps. key_symbol (snd p) = KEY_Escape"
    and "isDebugMode s" and "locked s"
    and "gaps_within (debugAbortSequenceLastTime s) (map fst ps)"
    and "debugAbortSequenceCount s < 5"
    and "debugAbortSequenceCount s + length ps \<ge> 5"
  shows "\<not> locked (run k2u s (presses ps))"
  using assms
proof (induction ps arbitrary: s)
  case Nil
  then show ?case by simp
next
  case (Cons p ps)
  let ?s1 = "snd (onKeyPress k2u (fst p) (snd p) s)"
  have k: "key_symbol (snd p) = KEY_Escape" using Cons.prems(1) by simp
  have gap: "\<not> fst p - debugAbortSequenceLastTime s > 1200" using Cons.prems(4) by simp
  note e = escape_press[OF Cons.prems(3) k, of k2u "fst p"]
  have d1: "isDebugMode ?s1" using e(1) Cons.prems(2) by (simp add: isDebugMode_def)
  have c1: "debugAbortSequenceCount ?s1 = debugAbortSequenceCount s + 1"
    using e(7)[OF Cons.prems(2)] gap by simp
  have t1: "debugAbortSequenceLastTime ?s1 = fst p" using e(6)[OF Cons.prems(2)] .
  have l1: "locked ?s1 = (debugAbortSequenceCount ?s1 < 5)" using e(8)[OF Cons.prems(2)] .
  have r: "run k2u s (presses (p # ps)) = run k2u ?s1 (presses ps)"
    by (simp add: presses_def run_Cons step_KeyPress)
  show ?case
  proof (cases "locked ?s1")
    case False
    then show ?thesis unfolding r by (simp add: run_presses_unlocked)
  next
    case True
    have "\<not> locked (run k2u ?s1 (presses ps))"
    proof (rule Cons.IH)
      show "\<forall>p\<in>set ps. key_symbol (snd p) = KEY_Escape" using Cons.prems(1) by simp
      show "isDebugMode ?s1" by (rule d1)
      show "locked ?s1" by (rule True)
      show "gaps_within (debugAbortSequenceLastTime ?s1) (map fst ps)"
        using Cons.prems(4) t1 by simp
      show "debugAbortSequenceCount ?s1 < 5" using True l1 by simp
      show "5 \<le> debugAbortSequenceCount ?s1 + length ps" using Cons.prems(6) c1 by simp
    qed
    then show ?thesis unfolding r .
  qed
qed

lemma escapes_no_debug:
  assumes "\<forall>p\<in>set ps. key_symbol (snd p) = KEY_Escape"
    and "\<not> isDebugMode s" and "locked s"
  shows "locked (run k2u s (presses ps)) \<and>
         (ps \<noteq> [] \<longrightarrow> passwordBuffer (run k2u s (presses ps)) = [])"
  using assms
proof (induction ps arbitrary: s)
  case Nil
  then show ?case by (simp add: presses_def run_Nil)
next
  case (Cons p ps)
  let ?s1 = "snd (onKeyPress k2u (fst p) (snd p) s)"
  have k: "key_symbol (snd p) = KEY_Escape" using Cons.prems(1) by simp
  note e = escape_press[OF Cons.prems(3) k, of k2u "fst p"]
  have d1: "\<not> isDebugMode ?s1" using e(1) Cons.prems(2) by (simp add: isDebugMode_def)
  have l1: "locked ?s1" using e(5)[OF Cons.prems(2)] .
  have b1: "passwordBuffer ?s1 = []" using e(4) .
  have r: "run k2u s (presses (p # ps)) = run k2u ?s1 (presses ps)"
    by (simp add: presses_def run_Cons step_KeyPress)
  have ih: "locked (run k2u ?s1 (presses ps)) \<and>
         (ps \<noteq> [] \<longrightarrow> passwordBuffer (run k2u ?s1 (presses ps)) = [])"
    using Cons.IH[of ?s1] Cons.prems(1) d1 l1 by simp
  show ?case
  proof (cases ps)
    case Nil
    then show ?thesis unfolding r using l1 b1 by (simp add: presses_def run_Nil)
  next
    case (Cons a list)
    then show ?thesis unfolding r using ih by simp
  qed
qed

text \<open>
  C4: in a locked session, take any presses of the Escape key.  With debug mode on,
  five of them in time order within 1200 ms leave the session unlocked, and no helper
  process was started and no verification is pending that was not before.  With debug
  mode off, any number of them at any times leave the session locked, with an empty
  buffer, and start no verification either.
\<close>

theorem five_escapes_debug_abort:
  assumes "locked s" and "\<forall>p\<in>set ps. key_symbol (snd p) = KEY_Escape"
  shows "let s' = run k2u s (presses ps)
         in (isDebugMode s \<and> length ps = 5 \<and> sorted (map fst ps) \<and>
             fst (last ps) - fst (hd ps) \<le> 1200 \<longrightarrow>
               \<not> locked s' \<and> authSpawned s' = authSpawned s \<and>
               authPending s' = authPending s) \<and>
            (\<not> isDebugMode s \<longrightarrow>
               locked s' \<and> (ps \<noteq> [] \<longrightarrow> passwordBuffer s' = []) \<and>
               authSpawned s' = authSpawned s \<and> authPending s' = authPending s)"
proof -
  let ?s' = "run k2u s (presses ps)"
  note fr = escapes_frame[OF assms(2), of k2u s]
  have A: "\<not> locked ?s'"
    if dbg: "isDebugMode s" and len: "length ps = 5" and srt: "sorted (map fst ps)"
      and win: "fst (last ps) - fst (hd ps) \<le> 1200"
  proof -
    obtain p rest where ps: "ps = p # rest" and lr: "length rest = 4"
      using len by (cases ps) auto
    let ?s1 = "snd (onKeyPress k2u (fst p) (snd p) s)"
    have k: "key_symbol (snd p) = KEY_Escape" using assms(2) ps by simp
    note e = escape_press[OF assms(1) k, of k2u "fst p"]
    have r: "?s' = run k2u ?s1 (presses rest)"
      by (simp add: ps presses_def run_Cons step_KeyPress)
    show ?thesis
    proof (cases "locked ?s1")
      case False
      then show ?thesis unfolding r by (simp add: run_presses_unlocked)
    next
      case True
      have "sorted (fst p # map fst rest)" using srt ps by simp
      moreover have "last (fst p # map fst rest) - fst p \<le> 1200"
        using win ps by (auto simp: last_map split: if_splits)
      ultimately have g: "gaps_within (fst p) (map fst rest)"
        by (rule sorted_window_gaps)
      have c: "debugAbortSequenceCount ?s1 \<ge> 1" using e(7)[OF dbg] by simp
      have "\<not> locked (run k2u ?s1 (presses rest))"
      proof (rule escapes_unlock)
        show "\<forall>p\<in>set rest. key_symbol (snd p) = KEY_Escape" using assms(2) ps by simp
        show "isDebugMode ?s1" using e(1) dbg by (simp add: isDebugMode_def)
        show "locked ?s1" by (rule True)
        show "gaps_within (debugAbortSequenceLastTime ?s1) (map fst rest)"
          using g e(6)[OF dbg] by simp
        show "debugAbortSequenceCount ?s1 < 5" using True e(8)[OF dbg] by simp
        show "5 \<le> debugAbortSequenceCount ?s1 + length rest" using c lr by simp
      qed
      then show ?thesis unfolding r .
    qed
  qed
  have B: "locked ?s' \<and> (ps \<noteq> [] \<longrightarrow> passwordBuffer ?s' = [])" if "\<not> isDebugMode s"
    using escapes_no_debug[OF assms(2) that assms(1)] .
  show ?thesis unfolding Let_def using A B fr by blast
qed

theorem five_escapes_debug_abort_witness:
  "locked example_debug_session \<and> isDebugMode example_debug_session \<and>
   \<not> locked (run (\<lambda>k. 0) example_debug_session
      (presses [(1000, escape_key), (1300, escape_key), (1600, escape_key),
                (1900, escape_key), (2200, escape_key)])) \<and>
   locked example_session \<and> \<not> isDebugMode example_session \<and>
   locked (run (\<lambda>k. 0) example_session
      (presses [(1000, escape_key), (1300, escape_key), (1600, escape_key),
                (1900, escape_key), (2200, escape_key)]))"
  using five_escapes_debug_abort[of example_debug_session
          "[(1000, escape_key), (1300, escape_key), (1600, escape_key),
            (1900, escape_key), (2200, escape_key)]" "\<lambda>k. 0"]
        five_escapes_debug_abort[of example_session
          "[(1000, escape_key), (1300, escape_key), (1600, escape_key),
            (1900, escape_key), (2200, escape_key)]" "\<lambda>k. 0"]
  by (simp add: example_session_def example_debug_session_def example_unlocked_def
        example_settings_def initial_def isDebugMode_def escape_key_def Let_def)

section \<open>C5: the manual fallback table\<close>

lemma manualMapping_other:
  assumes "kc < 0x20"
    and "\<not> (0x20 \<le> kv \<and> kv \<le> 0x7e)" "\<not> (0xa0 \<le> kv \<and> kv \<le> 0xff)" "kv < 0x01000000"
    and "\<not> (KEY_KP_0 \<le> kv \<and> kv \<le> KEY_KP_9)"
    and "kv \<notin> {KEY_KP_Decimal, KEY_KP_Separator, KEY_KP_Add, KEY_KP_Subtract, KEY_KP_Multiply, KEY_KP_Divide}"
  shows "manualMapping kv kc = 0"
  using assms by (auto simp: manualMapping_def)





section \<open>C6: Backspace after a character above U+FFFF\<close>

text \<open>
  For characters up to U+FFFF the round trip holds: after any accepted keystrokes of
  such characters, as many Backspace presses give the buffer back as it was.
\<close>

lemma onKeyPress_char_press:
  assumes "locked s" and "char_press k2u ev"
  shows "fst (onKeyPress k2u now ev s) = EVENT_STOP"
    and "snd (onKeyPress k2u now ev s) =
      updatePasswordPrompt ((resetPasswordTimeout s)
        \<lparr>passwordBuffer := passwordBuffer s @
           (if decoded k2u ev < 0x10000 then [decoded k2u ev]
            else [0xD800 + (decoded k2u ev - 0x10000) div 0x400,
                  0xDC00 + (decoded k2u ev - 0x10000) mod 0x400])\<rparr>)"
proof -
  let ?kv = "key_symbol ev" and ?m = "modifier_state ev"
  from assms(2) have
    n1: "\<not> ((?m AND CONTROL_MASK \<noteq> 0 \<and> ?m AND MOD1_MASK \<noteq> 0 \<and> ?m AND SHIFT_MASK \<noteq> 0) \<and>
            (?kv = KEY_l \<or> ?kv = KEY_L))"
    and n2: "\<not> (?m AND CONTROL_MASK \<noteq> 0 \<and> (?kv = KEY_r \<or> ?kv = KEY_R) \<and>
            passwordPromptText (resetPasswordTimeout s) \<noteq> None)"
    and n3: "\<not> (?kv = KEY_Return \<or> ?kv = KEY_KP_Enter)" "?kv \<noteq> KEY_BackSpace"
      "?kv \<noteq> KEY_Escape"
    and n4: "\<not> (?kv = KEY_Shift_L \<or> ?kv = KEY_Shift_R \<or>
                  ?kv = KEY_Control_L \<or> ?kv = KEY_Control_R \<or>
                  ?kv = KEY_Alt_L \<or> ?kv = KEY_Alt_R \<or>
                  ?kv = KEY_Super_L \<or> ?kv = KEY_Super_R \<or>
                  ?kv = KEY_Caps_Lock \<or> ?kv = KEY_Num_Lock)"
    and d: "decoded k2u ev \<noteq> 0" "decoded k2u ev \<le> 0x10FFFF"
    unfolding char_press_def Let_def by blast+
  have e: "onKeyPress k2u now ev s =
      (case fromCodePoint (decoded k2u ev) of
         Inl e \<Rightarrow> (Threw e, resetPasswordTimeout s)
       | Inr cs \<Rightarrow>
           (EVENT_STOP,
            updatePasswordPrompt ((resetPasswordTimeout s)
              \<lparr>passwordBuffer := passwordBuffer (resetPasswordTimeout s) @ cs\<rparr>)))"
    unfolding onKeyPress_def Let_def decoded_def[symmetric]
    using assms(1) n1 n2 n3 n4 d(1) by (simp only: if_False if_True simp_thms)
  show "fst (onKeyPress k2u now ev s) = EVENT_STOP"
    unfolding e using d(2) by (simp add: fromCodePoint_def)
  show "snd (onKeyPress k2u now ev s) =
      updatePasswordPrompt ((resetPasswordTimeout s)
        \<lparr>passwordBuffer := passwordBuffer s @
           (if decoded k2u ev < 0x10000 then [decoded k2u ev]
            else [0xD800 + (decoded k2u ev - 0x10000) div 0x400,
                  0xDC00 + (decoded k2u ev - 0x10000) mod 0x400])\<rparr>)"
    unfolding e using d(2) by (simp add: fromCodePoint_def resetPasswordTimeout_eq)
qed

lemma char_presses_buffer:
  assumes "\<forall>p\<in>set ps. char_press k2u (snd p) \<and> decoded k2u (snd p) < 0x10000"
    and "locked s"
  shows "locked (run k2u s (presses ps)) \<and>
         passwordBuffer (run k2u s (presses ps)) =
           passwordBuffer s @ map (\<lambda>p. decoded k2u (snd p)) ps"
  using assms
proof (induction ps arbitrary: s)
  case Nil
  then show ?case by (simp add: presses_def run_Nil)
next
  case (Cons p ps)
  let ?s1 = "snd (onKeyPress k2u (fst p) (snd p) s)"
  have c: "char_press k2u (snd p)" "decoded k2u (snd p) < 0x10000" using Cons.prems(1) by simp_all
  have l1: "locked ?s1"
    using Cons.prems(2)
    by (simp add: onKeyPress_char_press(2)[OF Cons.prems(2) c(1)] updatePasswordPrompt_eq
          resetPasswordTimeout_eq)
  have b1: "passwordBuffer ?s1 = passwordBuffer s @ [decoded k2u (snd p)]"
    using c(2)
    by (simp add: onKeyPress_char_press(2)[OF Cons.prems(2) c(1)] updatePasswordPrompt_eq
          resetPasswordTimeout_eq)
  have r: "run k2u s (presses (p # ps)) = run k2u ?s1 (presses ps)"
    by (simp add: presses_def run_Cons step_KeyPress)
  from Cons.IH[of ?s1] Cons.prems(1) l1 b1 show ?case unfolding r by simp
qed

lemma backspaces_buffer:
  assumes "\<forall>p\<in>set bs. key_symbol (snd p) = KEY_BackSpace" and "locked s"
  shows "passwordBuffer (run k2u s (presses bs)) =
           take (length (passwordBuffer s) - length bs) (passwordBuffer s)"
  using assms
proof (induction bs arbitrary: s)
  case Nil
  then show ?case by (simp add: presses_def run_Nil)
next
  case (Cons p bs)
  let ?s1 = "snd (onKeyPress k2u (fst p) (snd p) s)"
  have k: "key_symbol (snd p) = KEY_BackSpace" using Cons.prems(1) by simp
  note e = onKeyPress_BackSpace[OF Cons.prems(2) k, of k2u "fst p"]
  have l1: "locked ?s1"
    using Cons.prems(2) by (simp add: e updatePasswordPrompt_eq resetPasswordTimeout_eq)
  have b1: "passwordBuffer ?s1 = butlast (passwordBuffer s)"
    by (simp add: e updatePasswordPrompt_eq)
  have r: "run k2u s (presses (p # bs)) = run k2u ?s1 (presses bs)"
    by (simp add: presses_def run_Cons step_KeyPress)
  from Cons.IH[of ?s1] Cons.prems(1) l1 b1 show ?case
    unfolding r by (simp add: butlast_conv_take min_def)
qed

lemma run_append: "run k2u s (es @ fs) = run k2u (run k2u s es) fs"
  by (simp add: run_def)

lemma backspace_round_trip_below_0x10000:
  assumes "locked s"
    and "\<forall>p\<in>set ps. char_press k2u (snd p) \<and> decoded k2u (snd p) < 0x10000"
    and "\<forall>p\<in>set bs. key_symbol (snd p) = KEY_BackSpace"
    and "length bs = length ps"
  shows "passwordBuffer (run k2u s (presses ps @ presses bs)) = passwordBuffer s"
proof -
  note c = char_presses_buffer[OF assms(2) assms(1)]
  show ?thesis
    unfolding run_append
    using backspaces_buffer[OF assms(3) c[THEN conjunct1], of k2u] c[THEN conjunct2] assms(4)
    by simp
qed

lemma emoji_step:
  "snd (onKeyPress (\<lambda>k. 0) 0 emoji_key example_session) =
     example_session\<lparr>passwordResetTimeout := Some 5000, passwordBuffer := [0xD83D, 0xDE00],
          passwordPromptText := Some [PASSWORD_BULLET, PASSWORD_BULLET]\<rparr>"
  by (simp add: onKeyPress_def emoji_key_def example_session_fields Let_def manualMapping_def
      platformKeychar_def key_defs mask_defs fromCodePoint_def updatePasswordPrompt_eq
      resetPasswordTimeout_eq)

text \<open>
  C6 on the input where the code departs from it: the key with the direct Unicode key
  symbol of U+1F600 is accepted and appends one code point, which is two code units;
  one Backspace removes the last code unit only, and the buffer is left holding the
  lone high surrogate instead of being empty.
\<close>

theorem backspace_after_astral_key_leaves_surrogate:
  "fromCodePoint 0x1F600 = Inr [0xD83D, 0xDE00] \<and>
   passwordBuffer (run (\<lambda>k. 0) example_session [KeyPress 0 emoji_key]) = [0xD83D, 0xDE00] \<and>
   passwordBuffer (run (\<lambda>k. 0) example_session [KeyPress 0 emoji_key, KeyPress 1 backspace_key]) = [0xD83D]"
  by (simp add: run_def step_def emoji_step onKeyPress_BackSpace backspace_key_def
        updatePasswordPrompt_eq example_session_fields fromCodePoint_def)

section \<open>C7: the masked prompt\<close>

text \<open>
  C7 on the input where the code departs from it: after the one accepted key of
  U+1F600 the buffer holds one code point and the prompt, not revealed, shows two
  bullets.
\<close>

theorem astral_key_shows_two_bullets:
  "passwordBuffer (run (\<lambda>k. 0) example_session [KeyPress 0 emoji_key]) = [0xD83D, 0xDE00] \<and>
   passwordPromptText (run (\<lambda>k. 0) example_session [KeyPress 0 emoji_key]) =
     Some [PASSWORD_BULLET, PASSWORD_BULLET]"
  by (simp add: run_def step_def emoji_step)

lemma prompt_masks_by_length:
  assumes "passwordPromptText s \<noteq> None"
  shows "passwordPromptText (updatePasswordPrompt s) =
           Some (if passwordPromptRevealed s then passwordBuffer s
                 else replicate (length (passwordBuffer s)) PASSWORD_BULLET)"
  using assms by (auto simp: updatePasswordPrompt_eq)

section \<open>C8: media paused at lock and resumed at unlock\<close>

lemma pausePlayer_eq:
  "pausePlayer b s p =
     s\<lparr>busCalls := busCalls s @ pause_calls b p,
       pausedPlayers := pausedPlayers s @ (if paused_ok b p then [p] else [])\<rparr>"
  by (cases s)
     (simp add: pausePlayer_def pause_calls_def paused_ok_def Let_def split: option.splits)

lemma foldl_pausePlayer:
  "foldl (pausePlayer b) s ps =
     s\<lparr>busCalls := busCalls s @ concat (map (pause_calls b) ps),
       pausedPlayers := pausedPlayers s @ filter (paused_ok b) ps\<rparr>"
proof (induction ps arbitrary: s)
  case Nil
  show ?case by (cases s) simp
next
  case (Cons p ps)
  show ?case
    by (simp only: foldl.simps Cons.IH) (simp add: pausePlayer_eq)
qed

lemma pauseAllMedia_eq:
  "pauseAllMedia b s =
     s\<lparr>pausedPlayers := filter (paused_ok b) (mpris_names b),
       busCalls := busCalls s @ ListNames # concat (map (pause_calls b) (mpris_names b))\<rparr>"
  by (cases s)
     (simp add: pauseAllMedia_def mpris_names_def foldl_pausePlayer Let_def
        split: option.splits)

lemma Pause_in_pause_calls:
  "Pause p \<in> set (concat (map (pause_calls b) ps)) \<Longrightarrow> playback_status b p = Some ''Playing''"
  by (induction ps) (auto simp: pause_calls_def split: if_splits)

lemma syncPasswordPrompt_frame:
  "busCalls (syncPasswordPrompt s) = busCalls s"
  "pausedPlayers (syncPasswordPrompt s) = pausedPlayers s"
  "didPauseMedia (syncPasswordPrompt s) = didPauseMedia s"
  "locked (syncPasswordPrompt s) = locked s"
  "lockOverlay (syncPasswordPrompt s) = lockOverlay s"
  "unlinked (syncPasswordPrompt s) = unlinked s"
  "tmpFiles (syncPasswordPrompt s) = tmpFiles s"
  "resumeTasks (syncPasswordPrompt s) = resumeTasks s"
  "settings (syncPasswordPrompt s) = settings s"
  by (simp_all add: syncPasswordPrompt_def updatePasswordPrompt_eq destroyPasswordPrompt_def
        createPasswordPrompt_def)

lemma lock_media:
  assumes "\<not> locked s" and "settings s = Some c" and "pause_media c"
  shows "pausedPlayers (lock b caps True s) = filter (paused_ok b) (mpris_names b)"
    and "busCalls (lock b caps True s) =
           busCalls s @ ListNames # concat (map (pause_calls b) (mpris_names b))"
    and "didPauseMedia (lock b caps True s)"
    and "locked (lock b caps True s)"
    and "resumeTasks (lock b caps True s) = resumeTasks s"
    and "settings (lock b caps True s) = settings s"
  using assms
  by (simp_all add: lock_def Let_def syncPasswordPrompt_frame pauseAllMedia_eq)

lemma unlock_media:
  assumes "locked s" and "didPauseMedia s"
  shows "busCalls (unlock force s) =
           busCalls s @ (case pausedPlayers s of [] \<Rightarrow> [] | p # ps \<Rightarrow> [Play p])"
    and "pausedPlayers (unlock force s) = pausedPlayers s"
    and "resumeTasks (unlock force s) =
           resumeTasks s @ (case pausedPlayers s of [] \<Rightarrow> [] | p # ps \<Rightarrow> [p # ps])"
    and "\<not> locked (unlock force s)"
    and "settings (unlock force s) = settings s"
  using assms
  by (auto simp: unlock_def Let_def destroyPasswordPrompt_def clearPasswordResetTimeout_def
        resumeAllMedia_eq split: option.splits list.splits prod.splits)

lemma PlayReplied_next:
  assumes "resumeTasks s = (p # q # qs) # ts"
  shows "step k2u s (PlayReplied 0) =
           s\<lparr>busCalls := busCalls s @ [Play q], resumeTasks := (q # qs) # ts\<rparr>"
  using assms by (cases s) (simp add: step_def resumeAllMedia_replied_def resumePlayer_def)

lemma PlayReplied_last:
  assumes "resumeTasks s = [p] # ts"
  shows "step k2u s (PlayReplied 0) = s\<lparr>resumeTasks := ts, pausedPlayers := []\<rparr>"
  using assms by (cases s) (simp add: step_def resumeAllMedia_replied_def)

text \<open>A resume that is left alone plays the players it still has and then resets the list.\<close>

lemma resume_runs_to_its_end:
  assumes "resumeTasks s = [p # ps]"
  shows "busCalls (run k2u s (replicate (Suc (length ps)) (PlayReplied 0))) =
           busCalls s @ map Play ps \<and>
         pausedPlayers (run k2u s (replicate (Suc (length ps)) (PlayReplied 0))) = [] \<and>
         resumeTasks (run k2u s (replicate (Suc (length ps)) (PlayReplied 0))) = []"
  using assms
proof (induction ps arbitrary: s p)
  case Nil
  then show ?case by (simp add: run_Cons run_Nil PlayReplied_last)
next
  case (Cons q qs)
  let ?s1 = "s\<lparr>busCalls := busCalls s @ [Play q], resumeTasks := [q # qs]\<rparr>"
  have st: "step k2u s (PlayReplied 0) = ?s1" using Cons.prems by (rule PlayReplied_next)
  have "resumeTasks ?s1 = [q # qs]" by simp
  from Cons.IH[OF this] show ?case
    by (simp add: run_Cons st)
qed

text \<open>
  A lock cycle that no running resume disturbs is symmetric: every \<open>Pause\<close> goes to a
  player read as Playing, the players recorded are the MPRIS players that were playing
  and whose \<open>Pause\<close> succeeded, and once the replies to the \<open>Play\<close> calls have come
  in, the calls since the unlock are one \<open>Play\<close> for each recorded player and the
  list is empty.
\<close>

lemma media_cycle_undisturbed:
  assumes "\<not> locked s" and "settings s = Some c" and "pause_media c"
    and "resumeTasks s = []"
  shows "let s1 = lock b caps True s;
             s2 = unlock force s1;
             s3 = run k2u s2 (replicate (length (pausedPlayers s1)) (PlayReplied 0));
             players = (case list_names b of None \<Rightarrow> []
                        | Some names \<Rightarrow> filter (\<lambda>n. startsWith n MPRIS_PREFIX) names)
         in (\<forall>p. Pause p \<in> set (drop (length (busCalls s)) (busCalls s1)) \<longrightarrow>
                  playback_status b p = Some ''Playing'') \<and>
            pausedPlayers s1 =
              filter (\<lambda>p. playback_status b p = Some ''Playing'' \<and> pause_succeeds b p) players \<and>
            drop (length (busCalls s1)) (busCalls s3) = map Play (pausedPlayers s1) \<and>
            pausedPlayers s3 = [] \<and> resumeTasks s3 = []"
proof -
  let ?s1 = "lock b caps True s"
  let ?s2 = "unlock force ?s1"
  note l = lock_media[OF assms(1-3), of b caps]
  note u = unlock_media[OF l(4) l(3), of force]
  have players: "(case list_names b of None \<Rightarrow> []
                  | Some names \<Rightarrow> filter (\<lambda>n. startsWith n MPRIS_PREFIX) names) = mpris_names b"
    by (simp add: mpris_names_def)
  have ok: "(\<lambda>p. playback_status b p = Some ''Playing'' \<and> pause_succeeds b p) = paused_ok b"
    by (simp add: paused_ok_def fun_eq_iff)
  have a: "\<forall>p. Pause p \<in> set (drop (length (busCalls s)) (busCalls ?s1)) \<longrightarrow>
                  playback_status b p = Some ''Playing''"
    using Pause_in_pause_calls by (auto simp: l(2))
  have r: "drop (length (busCalls ?s1))
             (busCalls (run k2u ?s2 (replicate (length (pausedPlayers ?s1)) (PlayReplied 0)))) =
             map Play (pausedPlayers ?s1) \<and>
           pausedPlayers (run k2u ?s2 (replicate (length (pausedPlayers ?s1)) (PlayReplied 0))) = [] \<and>
           resumeTasks (run k2u ?s2 (replicate (length (pausedPlayers ?s1)) (PlayReplied 0))) = []"
  proof (cases "pausedPlayers ?s1")
    case Nil
    then show ?thesis using u l(5) assms(4) by (simp add: run_Nil)
  next
    case (Cons p ps)
    have t: "resumeTasks ?s2 = [p # ps]" using u(3) l(5) assms(4) Cons by simp
    from resume_runs_to_its_end[OF t, of k2u] u(1) Cons show ?thesis by simp
  qed
  show ?thesis
    unfolding Let_def players ok
    using a l(1) r by blast
qed

lemma example_unlocked_fields:
  "\<not> locked example_unlocked" "settings example_unlocked = Some example_settings"
  "pause_media example_settings" "freeze_display example_settings"
  "busCalls example_unlocked = []" "unlinked example_unlocked = []"
  "resumeTasks example_unlocked = []" "tmpFiles example_unlocked = []"
  by (simp_all add: example_unlocked_def example_settings_def initial_def)

lemma example_bus_both_paused:
  "filter (paused_ok example_bus_both) (mpris_names example_bus_both) =
     [''org.mpris.MediaPlayer2.vlc'', ''org.mpris.MediaPlayer2.mpv'']"
  by code_simp

lemma example_bus_paused:
  "filter (paused_ok example_bus) (mpris_names example_bus) = [''org.mpris.MediaPlayer2.vlc'']"
  "concat (map (pause_calls example_bus) (mpris_names example_bus)) =
     [GetPlaybackStatus ''org.mpris.MediaPlayer2.vlc'', Pause ''org.mpris.MediaPlayer2.vlc'',
      GetPlaybackStatus ''org.mpris.MediaPlayer2.mpv'']"
  by code_simp+

text \<open>
  C8 on an input where the code departs from it.  Two players are playing.  Lock, then
  unlock: the resume is started and \<open>_unlock\<close> returns.  The first player replies and
  the \<open>Play\<close> for the second is issued.  Before that one replies the user locks again;
  this lock finds the first player playing, pauses it and records it.  Then the reply
  arrives, and the resume of the earlier cycle ends by resetting the list, which by
  now is the record of the second lock.  The second unlock finds nothing recorded and
  issues no \<open>Play\<close>: the player this lock cycle paused stays paused.
\<close>

theorem relock_during_resume_loses_paused_player:
  "let s1 = lock example_bus_both [] True example_unlocked;
       s2 = unlock False s1;
       s3 = step (\<lambda>k. 0) s2 (PlayReplied 0);
       s4 = lock example_bus [] True s3;
       s5 = step (\<lambda>k. 0) s4 (PlayReplied 0);
       s6 = unlock False s5
   in pausedPlayers s1 = [''org.mpris.MediaPlayer2.vlc'', ''org.mpris.MediaPlayer2.mpv''] \<and>
      drop (length (busCalls s1)) (busCalls s3) =
        [Play ''org.mpris.MediaPlayer2.vlc'', Play ''org.mpris.MediaPlayer2.mpv''] \<and>
      drop (length (busCalls s3)) (busCalls s4) =
        [ListNames, GetPlaybackStatus ''org.mpris.MediaPlayer2.vlc'',
         Pause ''org.mpris.MediaPlayer2.vlc'', GetPlaybackStatus ''org.mpris.MediaPlayer2.mpv''] \<and>
      pausedPlayers s4 = [''org.mpris.MediaPlayer2.vlc''] \<and>
      pausedPlayers s5 = [] \<and>
      busCalls s6 = busCalls s4 \<and> \<not> locked s6 \<and> resumeTasks s6 = []"
proof -
  let ?vlc = "''org.mpris.MediaPlayer2.vlc''" and ?mpv = "''org.mpris.MediaPlayer2.mpv''"
  let ?s1 = "lock example_bus_both [] True example_unlocked"
  let ?s2 = "unlock False ?s1"
  let ?s3 = "step (\<lambda>k. 0) ?s2 (PlayReplied 0)"
  let ?s4 = "lock example_bus [] True ?s3"
  let ?s5 = "step (\<lambda>k. 0) ?s4 (PlayReplied 0)"
  let ?s6 = "unlock False ?s5"
  note l1 = lock_media[OF example_unlocked_fields(1-3), of example_bus_both "[]"]
  have p1: "pausedPlayers ?s1 = [?vlc, ?mpv]" using l1(1) example_bus_both_paused by simp
  note u2 = unlock_media[OF l1(4) l1(3), of False]
  have t2: "resumeTasks ?s2 = [?vlc, ?mpv] # []"
    using u2(3) l1(5) p1 example_unlocked_fields(7) by simp
  have b2: "busCalls ?s2 = busCalls ?s1 @ [Play ?vlc]" using u2(1) p1 by simp
  have s3: "?s3 = ?s2\<lparr>busCalls := busCalls ?s2 @ [Play ?mpv], resumeTasks := [?mpv] # []\<rparr>"
    using t2 by (rule PlayReplied_next)
  have c3: "drop (length (busCalls ?s1)) (busCalls ?s3) = [Play ?vlc, Play ?mpv]"
    unfolding s3 by (simp add: b2)
  have n3: "\<not> locked ?s3" unfolding s3 using u2(4) by simp
  have e3: "settings ?s3 = Some example_settings"
    unfolding s3 using u2(5) l1(6) example_unlocked_fields(2) by simp
  have t3: "resumeTasks ?s3 = [[?mpv]]" unfolding s3 by simp
  note l4 = lock_media[OF n3 e3 example_unlocked_fields(3), of example_bus "[]"]
  have p4: "pausedPlayers ?s4 = [?vlc]" using l4(1) example_bus_paused(1) by simp
  have c4: "drop (length (busCalls ?s3)) (busCalls ?s4) =
        [ListNames, GetPlaybackStatus ?vlc, Pause ?vlc, GetPlaybackStatus ?mpv]"
    using l4(2) example_bus_paused(2) by simp
  have t4: "resumeTasks ?s4 = [?mpv] # []" using l4(5) t3 by simp
  have s5: "?s5 = ?s4\<lparr>resumeTasks := [], pausedPlayers := []\<rparr>"
    using t4 by (rule PlayReplied_last)
  have p5: "pausedPlayers ?s5 = []" unfolding s5 by simp
  have l5: "locked ?s5" "didPauseMedia ?s5" unfolding s5 using l4(3,4) by simp_all
  note u6 = unlock_media[OF l5, of False]
  have b6: "busCalls ?s6 = busCalls ?s4" using u6(1) p5 by (simp add: s5)
  have t6: "resumeTasks ?s6 = []" using u6(3) p5 by (simp add: s5)
  show ?thesis
    unfolding Let_def using p1 c3 c4 p4 p5 b6 u6(4) t6 by blast
qed

section \<open>C9: the cursor raster follows the mask plane\<close>

lemma length_renderPixel [simp]:
  "length (renderPixel X w h c y rgba x) = length rgba"
  by (simp add: renderPixel_def Let_def)

lemma renderPixel_nth:
  assumes "j < length rgba"
  shows "renderPixel X w h c y rgba x ! j =
           (if maskAt X w h x y \<noteq> 0 \<and> j div 4 = y * w + x
            then channel (colorAt X w h c x y) (j mod 4) else rgba ! j)"
proof (cases "maskAt X w h x y = 0")
  case True
  then show ?thesis by (simp add: renderPixel_def maskAt_def Let_def)
next
  case False
  let ?idx = "(y * w + x) * 4"
  let ?col = "colorAt X w h c x y"
  have r: "renderPixel X w h c y rgba x =
             rgba[?idx + 0 := channel ?col 0, ?idx + 1 := channel ?col 1,
                  ?idx + 2 := channel ?col 2, ?idx + 3 := channel ?col 3]"
    using False by (simp add: renderPixel_def maskAt_def colorAt_def Let_def)
  show ?thesis
  proof (cases "j div 4 = y * w + x")
    case True
    then have j: "j = ?idx + j mod 4" by presburger
    have "j mod 4 = 0 \<or> j mod 4 = 1 \<or> j mod 4 = 2 \<or> j mod 4 = 3" by presburger
    then show ?thesis
    proof (elim disjE)
      assume m: "j mod 4 = 0"
      with j have "j = ?idx" by simp
      then show ?thesis using assms False True m unfolding r by simp
    next
      assume m: "j mod 4 = 1"
      with j have "j = ?idx + 1" by simp
      then show ?thesis using assms False True m unfolding r by simp
    next
      assume m: "j mod 4 = 2"
      with j have "j = ?idx + 2" by simp
      then show ?thesis using assms False True m unfolding r by simp
    next
      assume m: "j mod 4 = 3"
      with j have "j = ?idx + 3" by simp
      then show ?thesis using assms False True m unfolding r by simp
    qed
  next
    case ne: False
    then have "j \<noteq> ?idx + 0" "j \<noteq> ?idx + 1" "j \<noteq> ?idx + 2" "j \<noteq> ?idx + 3"
      by presburger+
    then show ?thesis using ne unfolding r by simp
  qed
qed

lemma length_foldl_renderPixel [simp]:
  "length (foldl (renderPixel X w h c y) rgba xs) = length rgba"
  by (induction xs arbitrary: rgba) simp_all

lemma foldl_renderPixel_nth:
  assumes "j < length rgba"
  shows "foldl (renderPixel X w h c y) rgba xs ! j =
           (if y * w \<le> j div 4 \<and> j div 4 - y * w \<in> set xs \<and>
               maskAt X w h (j div 4 - y * w) y \<noteq> 0
            then channel (colorAt X w h c (j div 4 - y * w) y) (j mod 4) else rgba ! j)"
  using assms
proof (induction xs arbitrary: rgba)
  case Nil
  show ?case by simp
next
  case (Cons x xs)
  have l: "j < length (renderPixel X w h c y rgba x)" using Cons.prems by simp
  have e: "j div 4 = y * w + x \<longleftrightarrow> y * w \<le> j div 4 \<and> j div 4 - y * w = x" by auto
  show ?case
    unfolding foldl.simps Cons.IH[OF l] renderPixel_nth[OF Cons.prems] e
    by auto
qed

text \<open>One row of the image: the inner loop over all x of a row.\<close>

lemma render_row_nth:
  assumes "j < length rgba" and "0 < w"
  shows "foldl (renderPixel X w h c y) rgba [0..<w] ! j =
           (if j div 4 div w = y \<and> maskAt X w h (j div 4 mod w) y \<noteq> 0
            then channel (colorAt X w h c (j div 4 mod w) y) (j mod 4) else rgba ! j)"
proof -
  let ?q = "j div 4"
  have a: "(y * w \<le> ?q \<and> ?q - y * w \<in> set [0..<w]) \<longleftrightarrow> ?q div w = y"
  proof
    assume h: "y * w \<le> ?q \<and> ?q - y * w \<in> set [0..<w]"
    then have "?q = (?q - y * w) + y * w" and "?q - y * w < w" by auto
    then have "?q div w = (?q - y * w) div w + y"
      using \<open>0 < w\<close> by (metis div_mult_self1 less_numeral_extra(3) add.commute)
    with \<open>?q - y * w < w\<close> show "?q div w = y" by simp
  next
    assume h: "?q div w = y"
    have "?q = ?q div w * w + ?q mod w" by simp
    with h have q: "?q = y * w + ?q mod w" by simp
    have "?q mod w < w" using \<open>0 < w\<close> by simp
    with q show "y * w \<le> ?q \<and> ?q - y * w \<in> set [0..<w]" by auto
  qed
  have b: "?q div w = y \<Longrightarrow> ?q - y * w = ?q mod w"
    by (metis add_diff_cancel_left' div_mult_mod_eq)
  show ?thesis
    unfolding foldl_renderPixel_nth[OF assms(1)]
    using a b by auto
qed

lemma length_render_rows [simp]:
  "length (foldl (\<lambda>rgba y. foldl (renderPixel X w h c y) rgba [0..<w]) rgba ys) = length rgba"
  by (induction ys arbitrary: rgba) simp_all

lemma render_rows_nth:
  assumes "j < length rgba" and "0 < w"
  shows "foldl (\<lambda>rgba y. foldl (renderPixel X w h c y) rgba [0..<w]) rgba ys ! j =
           (if j div 4 div w \<in> set ys \<and> maskAt X w h (j div 4 mod w) (j div 4 div w) \<noteq> 0
            then channel (colorAt X w h c (j div 4 mod w) (j div 4 div w)) (j mod 4)
            else rgba ! j)"
  using assms(1)
proof (induction ys arbitrary: rgba)
  case Nil
  show ?case by simp
next
  case (Cons y ys)
  have l: "j < length (foldl (renderPixel X w h c y) rgba [0..<w])" using Cons.prems by simp
  show ?case
    unfolding foldl.simps Cons.IH[OF l] render_row_nth[OF Cons.prems assms(2)]
    by auto
qed

lemma length_renderXbmCursorRgba:
  "length (renderXbmCursorRgba X w h c) = w * h * 4"
  by (simp add: renderXbmCursorRgba_def)

text \<open>Every byte of every destination pixel.\<close>

lemma renderXbmCursorRgba_byte:
  assumes "x < w" and "y < h" and "k < 4"
  shows "(y * w + x) * 4 + k < length (renderXbmCursorRgba X w h c)"
    and "renderXbmCursorRgba X w h c ! ((y * w + x) * 4 + k) =
           (if maskAt X w h x y \<noteq> 0 then channel (colorAt X w h c x y) k else 0)"
proof -
  let ?j = "(y * w + x) * 4 + k"
  have w0: "0 < w" using assms(1) by simp
  have "y * w + x < y * w + w" using assms(1) by simp
  also have "\<dots> = Suc y * w" by simp
  also have "\<dots> \<le> h * w" using assms(2) by (intro mult_le_mono1) simp
  finally have q: "y * w + x < w * h" by (simp add: mult.commute)
  then have "(y * w + x) * 4 + 4 \<le> w * h * 4" by simp
  then show jl: "?j < length (renderXbmCursorRgba X w h c)"
    using assms(3) by (simp add: length_renderXbmCursorRgba)
  have g: "(q * 4 + k) div 4 = q \<and> (q * 4 + k) mod 4 = k" for q :: nat
    using assms(3) by simp
  have d: "?j div 4 = y * w + x" "?j mod 4 = k"
    using g[of "y * w + x"] by blast+
  have dx: "(y * w + x) div w = y" "(y * w + x) mod w = x" using assms(1) by simp_all
  have jr: "?j < length (replicate (w * h * 4) (0::nat))"
    using jl by (simp add: length_renderXbmCursorRgba)
  have z: "replicate (w * h * 4) (0::nat) ! ?j = 0" using jr by simp
  show "renderXbmCursorRgba X w h c ! ?j =
           (if maskAt X w h x y \<noteq> 0 then channel (colorAt X w h c x y) k else 0)"
    unfolding renderXbmCursorRgba_def render_rows_nth[OF jr w0] d dx z
    using assms(2) by simp
qed

lemma srcCoord_less: "0 < n \<Longrightarrow> srcCoord n t i < n"
  unfolding srcCoord_def by (rule le_less_trans[OF min.cobounded1]) simp

lemma src_byte_in_range:
  fixes sx sy wd ht :: nat
  assumes "sx < wd" and "sy < ht"
  shows "sy * ((wd + 7) div 8) + sx div 8 < ((wd + 7) div 8) * ht"
proof -
  let ?b = "(wd + 7) div 8"
  have "sx div 8 \<le> (wd - 1) div 8" using assms(1) by (intro div_le_mono) simp
  also have "\<dots> < ?b" using assms(1) by (cases wd) (simp_all add: div_less_iff_less_mult)
  finally have "sx div 8 < ?b" .
  then have "sy * ?b + sx div 8 < Suc sy * ?b" by simp
  also have "\<dots> \<le> ht * ?b" using assms(2) by (intro mult_le_mono1) simp
  finally show ?thesis by (simp add: mult.commute)
qed

lemma lock_cursor_planes:
  "length (bits LOCK_CURSOR_XBM) = 160" "length (maskBits LOCK_CURSOR_XBM) = 160"
  "width LOCK_CURSOR_XBM = 28" "height LOCK_CURSOR_XBM = 40"
  by code_simp+

lemma lock_cursor_bit_10_0:
  "xbmBit (maskBits LOCK_CURSOR_XBM) 4 10 0 = 1" "xbmBit (bits LOCK_CURSOR_XBM) 4 10 0 = 1"
  "xbmBit (maskBits LOCK_CURSOR_XBM) 4 0 0 = 0"
  by code_simp+

text \<open>
  C9 fails as stated.  The colours are settings with an alpha channel.  With a
  foreground colour of alpha 0, the pixel (10, 0) of the cursor at its own size has mask
  bit 1 and is fully transparent all the same.
\<close>

theorem masked_pixel_transparent_with_alpha_zero_colour:
  "xbmBit (maskBits LOCK_CURSOR_XBM) 4 (srcCoord 28 28 10) (srcCoord 40 40 0) = 1 \<and>
   renderXbmCursorRgba LOCK_CURSOR_XBM 28 40 (Some \<lparr>fg = Some [0, 0, 0, 0], bg = None\<rparr>)
     ! ((0 * 28 + 10) * 4 + 3) = 0"
proof -
  have s: "srcCoord 28 28 10 = 10" "srcCoord 40 40 0 = 0" by (simp_all add: srcCoord_def)
  have "renderXbmCursorRgba LOCK_CURSOR_XBM 28 40 (Some \<lparr>fg = Some [0, 0, 0, 0], bg = None\<rparr>)
          ! ((0 * 28 + 10) * 4 + 3) =
        (if maskAt LOCK_CURSOR_XBM 28 40 10 0 \<noteq> 0
         then channel (colorAt LOCK_CURSOR_XBM 28 40 (Some \<lparr>fg = Some [0, 0, 0, 0], bg = None\<rparr>) 10 0) 3
         else 0)"
    by (rule renderXbmCursorRgba_byte(2)) simp_all
  also have "\<dots> = 0"
    by (simp add: maskAt_def colorAt_def lock_cursor_planes s lock_cursor_bit_10_0
          fgColor_def channel_def)
  finally show ?thesis by (simp add: s lock_cursor_bit_10_0)
qed

text \<open>
  C9, as the code has it: for every target size and every destination pixel, the
  source coordinates and the byte read from each plane are in range and so are the
  four bytes of the pixel.  The pixel is left at zero where the nearest source mask
  bit is 0; where it is 1 the pixel holds the foreground colour when the selector bit
  is 1 and the background colour otherwise.  So the pixel is fully transparent exactly
  when the mask bit is 0 or the colour chosen has alpha 0, and exactly when the mask
  bit is 0 if both colours have a non-zero alpha.
\<close>

theorem cursor_pixel_transparent_iff_mask:
  assumes "x < w" and "y < h" and "0 < width X" and "0 < height X"
  shows "let rgba = renderXbmCursorRgba X w h colors;
             bpr = (width X + 7) div 8;
             srcX = srcCoord (width X) w x;
             srcY = srcCoord (height X) h y;
             mask = xbmBit (maskBits X) bpr srcX srcY;
             sel = xbmBit (bits X) bpr srcX srcY;
             color = (if sel \<noteq> 0 then fgColor colors else bgColor colors);
             idx = (y * w + x) * 4
         in srcX < width X \<and> srcY < height X \<and>
            srcY * bpr + srcX div 8 < bpr * height X \<and>
            idx + 3 < length rgba \<and>
            (mask = 0 \<longrightarrow> map (\<lambda>k. rgba ! (idx + k)) [0, 1, 2, 3] = [0, 0, 0, 0]) \<and>
            (mask \<noteq> 0 \<longrightarrow>
               map (\<lambda>k. rgba ! (idx + k)) [0, 1, 2, 3] = map (channel color) [0, 1, 2, 3]) \<and>
            (rgba ! (idx + 3) = 0 \<longleftrightarrow> mask = 0 \<or> channel color 3 = 0) \<and>
            (channel (fgColor colors) 3 \<noteq> 0 \<and> channel (bgColor colors) 3 \<noteq> 0 \<longrightarrow>
               (rgba ! (idx + 3) = 0 \<longleftrightarrow> mask = 0))"
proof -
  let ?rgba = "renderXbmCursorRgba X w h colors"
  let ?idx = "(y * w + x) * 4"
  let ?mask = "maskAt X w h x y"
  let ?col = "colorAt X w h colors x y"
  have sx: "srcCoord (width X) w x < width X" using assms(3) by (rule srcCoord_less)
  have sy: "srcCoord (height X) h y < height X" using assms(4) by (rule srcCoord_less)
  note inr = src_byte_in_range[OF sx sy]
  have len: "?idx + 3 < length ?rgba"
    using renderXbmCursorRgba_byte(1)[OF assms(1,2), of 3 X colors] by simp
  have byte: "?rgba ! (?idx + k) = (if ?mask \<noteq> 0 then channel ?col k else 0)" if "k < 4" for k
    using renderXbmCursorRgba_byte(2)[OF assms(1,2) that] .
  have b0: "?rgba ! (?idx + 0) = (if ?mask \<noteq> 0 then channel ?col 0 else 0)"
    and b1: "?rgba ! (?idx + 1) = (if ?mask \<noteq> 0 then channel ?col 1 else 0)"
    and b2: "?rgba ! (?idx + 2) = (if ?mask \<noteq> 0 then channel ?col 2 else 0)"
    and b3: "?rgba ! (?idx + 3) = (if ?mask \<noteq> 0 then channel ?col 3 else 0)"
    by (rule byte, simp)+
  have zero: "?mask = 0 \<longrightarrow> map (\<lambda>k. ?rgba ! (?idx + k)) [0, 1, 2, 3] = [0, 0, 0, 0]"
    using b0 b1 b2 b3 by simp
  have col: "?mask \<noteq> 0 \<longrightarrow>
      map (\<lambda>k. ?rgba ! (?idx + k)) [0, 1, 2, 3] = map (channel ?col) [0, 1, 2, 3]"
    using b0 b1 b2 b3 by simp
  have alpha: "?rgba ! (?idx + 3) = 0 \<longleftrightarrow> ?mask = 0 \<or> channel ?col 3 = 0"
    using b3 by simp
  have opaque: "channel (fgColor colors) 3 \<noteq> 0 \<and> channel (bgColor colors) 3 \<noteq> 0 \<longrightarrow>
      (?rgba ! (?idx + 3) = 0 \<longleftrightarrow> ?mask = 0)"
    using b3 by (simp add: colorAt_def)
  show ?thesis
    unfolding Let_def
    using sx sy inr len zero col alpha opaque
    unfolding maskAt_def colorAt_def
    by (intro conjI) assumption+
qed

theorem cursor_pixel_transparent_iff_mask_witness:
  "length (maskBits LOCK_CURSOR_XBM) =
     ((width LOCK_CURSOR_XBM + 7) div 8) * height LOCK_CURSOR_XBM \<and>
   length (bits LOCK_CURSOR_XBM) =
     ((width LOCK_CURSOR_XBM + 7) div 8) * height LOCK_CURSOR_XBM \<and>
   renderXbmCursorRgba LOCK_CURSOR_XBM 56 80 None ! ((0 * 56 + 20) * 4 + 3) = 255 \<and>
   renderXbmCursorRgba LOCK_CURSOR_XBM 56 80 None ! ((0 * 56 + 0) * 4 + 3) = 0 \<and>
   renderXbmCursorRgba LOCK_CURSOR_XBM 14 20 None ! ((0 * 14 + 5) * 4 + 3) = 255"
proof -
  have s: "srcCoord 28 56 20 = 10" "srcCoord 40 80 0 = 0" "srcCoord 28 56 0 = 0"
    "srcCoord 28 14 5 = 10" "srcCoord 40 20 0 = 0"
    by (simp_all add: srcCoord_def)
  show ?thesis
    using cursor_pixel_transparent_iff_mask[of 20 56 0 80 LOCK_CURSOR_XBM None]
      cursor_pixel_transparent_iff_mask[of 0 56 0 80 LOCK_CURSOR_XBM None]
      cursor_pixel_transparent_iff_mask[of 5 14 0 20 LOCK_CURSOR_XBM None]
    by (simp add: Let_def lock_cursor_planes s lock_cursor_bit_10_0 fgColor_def bgColor_def
          channel_def)
qed

section \<open>C10: screenshots and the files left in the temporary directory\<close>

lemma lock_overlay:
  assumes "\<not> locked s" and "settings s = Some c" and "freeze_display c"
  shows "lockOverlay (lock b caps True s) =
           Some (fst (captureScreens \<lparr>screenshots = [], destroyed = False\<rparr> caps (tmpFiles s)))"
    and "tmpFiles (lock b caps True s) =
           snd (captureScreens \<lparr>screenshots = [], destroyed = False\<rparr> caps (tmpFiles s))"
    and "locked (lock b caps True s)"
    and "unlinked (lock b caps True s) = unlinked s"
  using assms
  by (auto simp add: lock_def Let_def syncPasswordPrompt_frame pauseAllMedia_eq)

lemma unlock_overlay:
  assumes "locked s" and "lockOverlay s = Some ov"
  shows "unlinked (unlock force s) = unlinked s @ map shot_file (screenshots ov)"
    and "tmpFiles (unlock force s) =
           foldl (\<lambda>fs f. removeAll f fs) (tmpFiles s) (map shot_file (screenshots ov))"
    and "lockOverlay (unlock force s) = None"
    and "\<not> locked (unlock force s)"
  using assms
  by (auto simp: unlock_def Let_def destroyPasswordPrompt_def clearPasswordResetTimeout_def
        resumeAllMedia_eq overlay_destroy_def split: option.splits list.splits)

lemma foldl_removeAll_set:
  "set (foldl (\<lambda>fs f. removeAll f fs) files gs) = set files - set gs"
  by (induction gs arbitrary: files) auto

text \<open>What is recorded is unlinked: no recorded file is left after the unlock.\<close>

lemma recorded_screenshots_unlinked:
  assumes "locked s" and "lockOverlay s = Some ov"
  shows "set (map shot_file (screenshots ov)) \<subseteq> set (unlinked (unlock force s)) \<and>
         set (tmpFiles (unlock force s)) = set (tmpFiles s) - set (map shot_file (screenshots ov))"
  using unlock_overlay(1,2)[OF assms, of force] by (simp add: foldl_removeAll_set)

lemma screenshotAreaToFile_result:
  "fst (screenshotAreaToFile c files) = fst (screenshotAreaToFile c [])"
  by (simp add: screenshotAreaToFile_def Let_def split: option.splits prod.splits)

lemma foldl_captureMonitor:
  "map shot_file (screenshots (fst (foldl captureMonitor (ov, files) zs))) =
     map shot_file (screenshots ov) @
     map (\<lambda>z. snd (fst (screenshotAreaToFile (snd z) [])))
       (filter (\<lambda>z. fst (fst (screenshotAreaToFile (snd z) []))) zs)"
proof (induction zs arbitrary: ov files)
  case Nil
  show ?case by simp
next
  case (Cons z zs)
  obtain i c where z: "z = (i, c)" by (cases z)
  obtain ok used files1 where r: "screenshotAreaToFile c files = ((ok, used), files1)"
    by (metis prod.collapse)
  have r0: "fst (screenshotAreaToFile c []) = (ok, used)"
    using screenshotAreaToFile_result[of c files] r by simp
  show ?case
  proof (cases ok)
    case True
    have "captureMonitor (ov, files) z =
            (ov\<lparr>screenshots := screenshots ov @ [\<lparr>shot_file = used, shot_monitor = i\<rparr>]\<rparr>, files1)"
      using True by (simp add: captureMonitor_def z r)
    then show ?thesis using True r0 by (simp add: Cons.IH z)
  next
    case False
    have "captureMonitor (ov, files) z = (ov, files1)"
      using False by (simp add: captureMonitor_def z r)
    then show ?thesis using False r0 by (simp add: Cons.IH z)
  qed
qed

text \<open>The overlay records the files of the captures that succeeded, and no other.\<close>

lemma captureScreens_records_successes:
  "map shot_file (screenshots (fst (captureScreens ov caps files))) =
     map shot_file (screenshots ov) @
     map (\<lambda>c. snd (fst (screenshotAreaToFile c [])))
       (filter (\<lambda>c. fst (fst (screenshotAreaToFile c []))) caps)"
proof -
  have "map (\<lambda>z. snd (fst (screenshotAreaToFile (snd z) [])))
          (filter (\<lambda>z. fst (fst (screenshotAreaToFile (snd z) []))) (zip ns caps)) =
        map (\<lambda>c. snd (fst (screenshotAreaToFile c [])))
          (filter (\<lambda>c. fst (fst (screenshotAreaToFile c []))) caps)"
    if "length ns = length caps" for ns :: "nat list"
    using that by (induction ns caps rule: list_induct2) auto
  then show ?thesis
    by (simp add: captureScreens_def foldl_captureMonitor)
qed

lemma example_captures_result:
  "captureScreens \<lparr>screenshots = [], destroyed = False\<rparr> example_captures [] =
     (\<lparr>screenshots = [\<lparr>shot_file = ''/tmp/stealth-lock-0-1.png'', shot_monitor = 0\<rparr>],
       destroyed = False\<rparr>,
      [''/tmp/stealth-lock-1-2.png'', ''/tmp/stealth-lock-0-1.png''])"
  by code_simp

text \<open>
  C10 on an input where the code departs from it.  Two monitors are captured with the
  frozen display on.  The capture of the second fails after \<open>replace\<close> has created
  its file; \<open>_captureMonitor\<close> returns early and records nothing for it.  The unlock
  destroys the overlay, which unlinks the one recorded file.  The file created for the
  second monitor is still in the temporary directory after the unlock, and no unlink
  was attempted for it.
\<close>

theorem failed_capture_leaves_its_file:
  "let s1 = lock example_bus example_captures True example_unlocked;
       s2 = unlock False s1
   in tmpFiles s1 = [''/tmp/stealth-lock-1-2.png'', ''/tmp/stealth-lock-0-1.png''] \<and>
      map_option (\<lambda>ov. map shot_file (screenshots ov)) (lockOverlay s1) =
        Some [''/tmp/stealth-lock-0-1.png''] \<and>
      unlinked s2 = [''/tmp/stealth-lock-0-1.png''] \<and>
      tmpFiles s2 = [''/tmp/stealth-lock-1-2.png''] \<and>
      lockOverlay s2 = None \<and> \<not> locked s2"
proof -
  let ?s1 = "lock example_bus example_captures True example_unlocked"
  note l = lock_overlay[OF example_unlocked_fields(1,2,4), of example_bus example_captures,
      unfolded example_unlocked_fields(8) example_captures_result]
  have ov: "lockOverlay ?s1 =
      Some \<lparr>screenshots = [\<lparr>shot_file = ''/tmp/stealth-lock-0-1.png'', shot_monitor = 0\<rparr>],
            destroyed = False\<rparr>"
    using l(1) by simp
  have f1: "tmpFiles ?s1 = [''/tmp/stealth-lock-1-2.png'', ''/tmp/stealth-lock-0-1.png'']"
    using l(2) by simp
  note u = unlock_overlay[OF l(3) ov, of False]
  have u1: "unlinked (unlock False ?s1) = [''/tmp/stealth-lock-0-1.png'']"
    using u(1) l(4) example_unlocked_fields(6) by simp
  have f2: "tmpFiles (unlock False ?s1) = [''/tmp/stealth-lock-1-2.png'']"
    unfolding u(2) f1 by simp
  show ?thesis
    unfolding Let_def using f1 ov u1 f2 u(3,4) by simp
qed

end
